theory Spec2Isabelle
  imports Main
begin

section \<open>JavaScript values and request identities\<close>

text \<open>
  The fields \<open>error\<close> and \<open>response\<close> of a cache item have the TypeScript type \<open>any\<close>:
  whatever the transport rejected with, or whatever \<open>response.json()\<close> or
  \<open>response.text()\<close> produced. An unset field reads \<open>undefined\<close>.
\<close>

datatype jsval =
    JUndefined
  | JNull
  | JBool bool
  | JNum int
  | JStr string
  | JObj "(string \<times> jsval) list"

text \<open>The test \<open>x != null\<close> of JavaScript: false exactly for \<open>null\<close> and \<open>undefined\<close>.\<close>

definition neqNull :: "jsval \<Rightarrow> bool" where
  "neqNull x = (x \<noteq> JNull \<and> x \<noteq> JUndefined)"

text \<open>
  \<open>RequestInit\<close> is an options object (method, headers, body, ...), kept as its list of
  properties. \<open>RequestInfo\<close> is either a URL string or a \<open>Request\<close> object, of which the
  code reads the \<open>url\<close>.
\<close>

type_synonym requestInit = "(string \<times> jsval) list"

datatype requestInfo =
    URLString string
  | Request (url: string) requestInit

text \<open>
  Modelled from the spec: \<open>deepEqual\<close> is the default export of the package
  \<open>deep-equal\<close>, which is not part of the sources. The specification describes it as
  structural deep equality of the stored and the queried values, which on the datatypes
  above is equality.
\<close>

definition deepEqual :: "'a \<Rightarrow> 'a \<Rightarrow> bool" where
  "deepEqual a b = (a = b)"

section \<open>FetchCacheItem (fetch-cache-item.ts)\<close>

text \<open>
  The class \<open>FetchCacheItem\<close>. The field \<open>fetch\<close> is the promise returned by
  \<open>generateFetch\<close>; that \<open>async\<close> function catches everything, so its promise is
  either pending or fulfilled, never rejected: \<open>fetchSettled\<close> is the state of that
  promise. The promise object itself is identified with the item that owns it.
\<close>

record FetchCacheItem =
  error :: jsval
  response :: jsval
  lifespan :: int
  expired :: bool
  fetchSettled :: bool
  input :: requestInfo
  opts :: "requestInit option"

definition argsEqual :: "FetchCacheItem \<Rightarrow> requestInfo \<Rightarrow> requestInit option \<Rightarrow> bool" where
  "argsEqual item inp op = (deepEqual inp (input item) \<and> deepEqual op (opts item))"

definition urlEqual :: "FetchCacheItem \<Rightarrow> string \<Rightarrow> bool" where
  "urlEqual item u =
     (case input item of Request ru _ \<Rightarrow> ru = u | URLString s \<Rightarrow> s = u)"

definition isExpired :: "FetchCacheItem \<Rightarrow> bool" where
  "isExpired item = expired item"

definition setExpired :: "FetchCacheItem \<Rightarrow> FetchCacheItem" where
  "setExpired item = item\<lparr>expired := True\<rparr>"

text \<open>
  The state of the promise returned by \<open>getPromise\<close>: it waits for \<open>this.fetch\<close>, then
  throws \<open>this.error\<close> if that is \<open>!= null\<close> and returns \<open>this.response\<close> otherwise.
\<close>

datatype promiseState = Pending | Fulfilled jsval | Rejected jsval

definition getPromise :: "FetchCacheItem \<Rightarrow> promiseState" where
  "getPromise item =
     (if \<not> fetchSettled item then Pending
      else if neqNull (error item) then Rejected (error item)
      else Fulfilled (response item))"

text \<open>
  What the transport hands back to \<open>generateFetch\<close>. The global \<open>fetch\<close> either rejects
  (\<open>Inl\<close> the thrown value) or yields a response object. Of that object the code reads
  the \<open>Content-Type\<close> header (\<open>null\<close> when absent) and calls \<open>json()\<close> or \<open>text()\<close>,
  each of which yields a value or throws.
\<close>

record httpResponse =
  contentType :: "string option"
  jsonBody :: "jsval + jsval"
  textBody :: "jsval + string"

type_synonym transportResult = "jsval + httpResponse"

text \<open>\<open>String.prototype.includes\<close>: the second string occurs in the first.\<close>

fun startsWith :: "string \<Rightarrow> string \<Rightarrow> bool" where
  "startsWith s [] = True"
| "startsWith [] (c # cs) = False"
| "startsWith (d # ds) (c # cs) = (d = c \<and> startsWith ds cs)"

fun includes_str :: "string \<Rightarrow> string \<Rightarrow> bool" where
  "includes_str [] sub = startsWith [] sub"
| "includes_str (d # ds) sub = (startsWith (d # ds) sub \<or> includes_str ds sub)"

text \<open>
  The body of \<open>generateFetch\<close> after its first \<open>await\<close>: decode the body by content
  type and store it in \<open>response\<close>; anything thrown on the way is stored in \<open>error\<close>.
  The result is \<open>Inl\<close> the caught value or \<open>Inr\<close> the decoded data.
\<close>

definition decode :: "transportResult \<Rightarrow> jsval + jsval" where
  "decode r =
     (case r of
        Inl e \<Rightarrow> Inl e
      | Inr resp \<Rightarrow>
          (let ct = (case contentType resp of None \<Rightarrow> [] | Some c \<Rightarrow> if c = [] then [] else c)
           in if includes_str ct ''application/json'' then jsonBody resp
              else (case textBody resp of Inl e \<Rightarrow> Inl e | Inr s \<Rightarrow> Inr (JStr s))))"

definition generateFetch_finish :: "transportResult \<Rightarrow> FetchCacheItem \<Rightarrow> FetchCacheItem" where
  "generateFetch_finish r item =
     (case decode r of
        Inr data \<Rightarrow> item\<lparr>response := data, fetchSettled := True\<rparr>
      | Inl e \<Rightarrow> item\<lparr>error := e, fetchSettled := True\<rparr>)"

section \<open>The shared store and FetchSuspense (tag-indexed design, fetch-suspense.ts)\<close>

text \<open>
  An instance of the class \<open>FetchSuspense\<close>: its tags, and how many times it has
  emitted the event \<open>elementsExpired\<close>.
\<close>

record FetchSuspense =
  tags :: "string list"
  emitted :: nat

text \<open>
  Cache items are objects shared by reference between the per-tag arrays, so they live
  in a heap addressed by natural numbers; \<open>nextRef\<close> is the next free address. The
  static fields \<open>instances\<close> and \<open>fetchCache\<close> are part of the world, together with the
  calls made to the transport, the callbacks registered with \<open>setTimeout\<close> (the item to
  expire and the time it is due) and the current time in milliseconds.
\<close>

record world =
  heap :: "nat \<Rightarrow> FetchCacheItem"
  nextRef :: nat
  fetchCache :: "string \<Rightarrow> nat list option"
  instances :: "FetchSuspense list"
  transportLog :: "(requestInfo \<times> requestInit option) list"
  timers :: "(nat \<times> int) list"
  clock :: int

definition emptyItem :: FetchCacheItem where
  "emptyItem = \<lparr>error = JUndefined, response = JUndefined, lifespan = 0, expired = False,
     fetchSettled = False, input = URLString [], opts = None\<rparr>"

definition initialWorld :: world where
  "initialWorld = \<lparr>heap = (\<lambda>_. emptyItem), nextRef = 0, fetchCache = (\<lambda>_. None),
     instances = [], transportLog = [], timers = [], clock = 0\<rparr>"

text \<open>Reading a property of \<open>undefined\<close> throws a \<open>TypeError\<close>.\<close>

datatype exn = TypeError

text \<open>
  \<open>setTimeout\<close> belongs to the platform, not to the sources. It keeps its delay as a
  32-bit signed integer: Node.js runs the callback after the delay it is given when that
  is between 1 and \<open>2^31 - 1\<close> milliseconds, and after 1 millisecond otherwise (a
  negative delay, or one of \<open>2^31\<close> or more). Browsers agree on the delays between 1 and
  \<open>2^31 - 1\<close>; outside they reduce the delay modulo \<open>2^32\<close> and use 0 for a negative
  result. Lifespans are whole numbers of milliseconds here; \<open>NaN\<close>, \<open>Infinity\<close> and
  fractions are not represented.
\<close>

definition timerDelay :: "int \<Rightarrow> int" where
  "timerDelay l = (if 1 \<le> l \<and> l \<le> 2147483647 then l else 1)"

text \<open>
  The constructor of \<open>FetchCacheItem\<close>: stores the arguments, calls \<open>generateFetch\<close>,
  which calls the transport at once, and registers the expiry callback with
  \<open>setTimeout\<close> when \<open>this.lifespan\<close> is truthy. Returns the address of the new item.
\<close>

definition new_FetchCacheItem ::
  "requestInfo \<Rightarrow> requestInit option \<Rightarrow> int \<Rightarrow> world \<Rightarrow> nat \<times> world" where
  "new_FetchCacheItem inp op l st =
     (let r = nextRef st;
          item = \<lparr>error = JUndefined, response = JUndefined, lifespan = l, expired = False,
                  fetchSettled = False, input = inp, opts = op\<rparr>
      in (r, st\<lparr>heap := (heap st)(r := item),
                nextRef := Suc r,
                transportLog := transportLog st @ [(inp, op)],
                timers := timers st @ (if l \<noteq> 0 then [(r, clock st + timerDelay l)] else [])\<rparr>))"

text \<open>
  \<open>fetchCache\<close> is a plain object, so besides the arrays it owns it inherits the
  members of \<open>Object.prototype\<close>. The constructor of \<open>FetchSuspense\<close> tests
  \<open>!FetchSuspense.fetchCache[tag]\<close>: for a tag with one of these names the inherited
  value is truthy and no array is created, and a later \<open>fetchCache[tag].find\<close>,
  \<open>.filter\<close> or \<open>.push\<close> throws a \<open>TypeError\<close>, as for a tag without a value. The field
  \<open>fetchCache\<close> of the world holds the arrays the object owns. An assignment
  \<open>fetchCache[tag] = []\<close> gives the object an array of its own; for the one name
  \<open>__proto__\<close> it replaces the prototype instead, which changes what further names
  inherit and is not followed here.
\<close>

definition inheritedName :: "string \<Rightarrow> bool" where
  "inheritedName tag =
     (tag \<in> set [''constructor'', ''__proto__'', ''hasOwnProperty'', ''isPrototypeOf'',
                  ''propertyIsEnumerable'', ''toLocaleString'', ''toString'', ''valueOf'',
                  ''__defineGetter__'', ''__defineSetter__'', ''__lookupGetter__'',
                  ''__lookupSetter__''])"

text \<open>The constructor of \<open>FetchSuspense\<close>; a missing argument means \<open>['default']\<close>.\<close>

datatype tagsArg = TagString string | TagArray "string list"

fun initTags :: "string list \<Rightarrow> world \<Rightarrow> world" where
  "initTags [] st = st"
| "initTags (tag # rest) st =
     initTags rest
       (case fetchCache st tag of
          None \<Rightarrow> if inheritedName tag then st else st\<lparr>fetchCache := (fetchCache st)(tag \<mapsto> [])\<rparr>
        | Some _ \<Rightarrow> st)"

definition new_FetchSuspense :: "tagsArg option \<Rightarrow> world \<Rightarrow> world" where
  "new_FetchSuspense arg st =
     (let ts = (case arg of None \<Rightarrow> [''default'']
                | Some (TagString s) \<Rightarrow> [s]
                | Some (TagArray a) \<Rightarrow> a)
      in initTags ts (st\<lparr>instances := instances st @ [\<lparr>tags = ts, emitted = 0\<rparr>]\<rparr>))"

definition hasOneOfTheseTags :: "FetchSuspense \<Rightarrow> string list \<Rightarrow> bool" where
  "hasOneOfTheseTags inst ts = list_ex (\<lambda>tag. tag \<in> set ts) (tags inst)"

text \<open>
  \<open>findFetchURL\<close> and \<open>findFetchItem\<close> are the same loop over \<open>this.tags\<close> with two
  different tests on the item; the test is the query.
\<close>

datatype query = ByURL string | ByRequest requestInfo "requestInit option"

fun matches :: "query \<Rightarrow> FetchCacheItem \<Rightarrow> bool" where
  "matches (ByURL u) item = urlEqual item u"
| "matches (ByRequest inp op) item = argsEqual item inp op"

fun findFetch :: "query \<Rightarrow> string list \<Rightarrow> world \<Rightarrow> exn + nat option" where
  "findFetch q [] st = Inr None"
| "findFetch q (tag # rest) st =
     (case fetchCache st tag of
        None \<Rightarrow> Inl TypeError
      | Some items \<Rightarrow>
          (case find (\<lambda>i. matches q (heap st i) \<and> \<not> isExpired (heap st i)) items of
             Some i \<Rightarrow> Inr (Some i)
           | None \<Rightarrow> findFetch q rest st))"

definition findFetchURL :: "string list \<Rightarrow> string \<Rightarrow> world \<Rightarrow> exn + nat option" where
  "findFetchURL ts u st = findFetch (ByURL u) ts st"

definition findFetchItem ::
  "string list \<Rightarrow> requestInfo \<Rightarrow> requestInit option \<Rightarrow> world \<Rightarrow> exn + nat option" where
  "findFetchItem ts inp op st = findFetch (ByRequest inp op) ts st"

fun cleanCache :: "string list \<Rightarrow> world \<Rightarrow> exn + world" where
  "cleanCache [] st = Inr st"
| "cleanCache (tag # rest) st =
     (case fetchCache st tag of
        None \<Rightarrow> Inl TypeError
      | Some items \<Rightarrow>
          cleanCache rest
            (st\<lparr>fetchCache := (fetchCache st)(tag \<mapsto> filter (\<lambda>i. \<not> isExpired (heap st i)) items)\<rparr>))"

text \<open>\<open>this.tags.forEach(tag => FetchSuspense.fetchCache[tag].push(newFetchItem))\<close>\<close>

fun pushAll :: "string list \<Rightarrow> nat \<Rightarrow> world \<Rightarrow> exn + world" where
  "pushAll [] r st = Inr st"
| "pushAll (tag # rest) r st =
     (case fetchCache st tag of
        None \<Rightarrow> Inl TypeError
      | Some items \<Rightarrow> pushAll rest r (st\<lparr>fetchCache := (fetchCache st)(tag \<mapsto> items @ [r])\<rparr>))"

text \<open>
  The synchronous lookup returns a value, throws the stored error, or throws the
  \<open>fetch\<close> promise of an item (named by the item's address).
\<close>

datatype signal = Returned jsval | ThrewError jsval | ThrewPromise nat

definition fetch ::
  "string list \<Rightarrow> requestInfo \<Rightarrow> requestInit option \<Rightarrow> int \<Rightarrow> world \<Rightarrow> exn + (signal \<times> world)" where
  "fetch ts inp op l st =
     (case findFetchItem ts inp op st of
        Inl e \<Rightarrow> Inl e
      | Inr (Some i) \<Rightarrow>
          (if neqNull (error (heap st i)) then Inr (ThrewError (error (heap st i)), st)
           else if neqNull (response (heap st i)) then Inr (Returned (response (heap st i)), st)
           else Inr (ThrewPromise i, st))
      | Inr None \<Rightarrow>
          (case new_FetchCacheItem inp op l st of
             (r, st1) \<Rightarrow>
               (case pushAll ts r st1 of
                  Inl e \<Rightarrow> Inl e
                | Inr st2 \<Rightarrow> Inr (ThrewPromise r, st2))))"

text \<open>
  The asynchronous lookup returns the promise \<open>getPromise()\<close> of an item; the result
  names the item, and \<open>getPromise\<close> reads the promise's state off the item.
\<close>

definition nonReactFetch ::
  "string list \<Rightarrow> requestInfo \<Rightarrow> requestInit option \<Rightarrow> int \<Rightarrow> world \<Rightarrow> exn + (nat \<times> world)" where
  "nonReactFetch ts inp op l st =
     (case findFetchItem ts inp op st of
        Inl e \<Rightarrow> Inl e
      | Inr (Some i) \<Rightarrow> Inr (i, st)
      | Inr None \<Rightarrow>
          (case new_FetchCacheItem inp op l st of
             (r, st1) \<Rightarrow>
               (case pushAll ts r st1 of
                  Inl e \<Rightarrow> Inl e
                | Inr st2 \<Rightarrow> Inr (r, st2))))"

definition uriIsInCache :: "string list \<Rightarrow> string \<Rightarrow> world \<Rightarrow> exn + bool" where
  "uriIsInCache ts u st =
     (case findFetchURL ts u st of Inl e \<Rightarrow> Inl e | Inr m \<Rightarrow> Inr (m \<noteq> None))"

text \<open>
  The references stored under the given tags, in tag order (a tag that was never
  created contributes nothing).
\<close>

definition entriesOf :: "string list \<Rightarrow> world \<Rightarrow> nat list" where
  "entriesOf ts st =
     concat (map (\<lambda>tag. case fetchCache st tag of None \<Rightarrow> [] | Some items \<Rightarrow> items) ts)"

definition liveCount :: "string list \<Rightarrow> world \<Rightarrow> nat" where
  "liveCount ts st = length (filter (\<lambda>i. \<not> expired (heap st i)) (entriesOf ts st))"

text \<open>\<open>matchingItem.setExpired()\<close> on the item at an address.\<close>

definition expireItem :: "nat \<Rightarrow> world \<Rightarrow> world" where
  "expireItem i st = st\<lparr>heap := (heap st)(i := setExpired (heap st i))\<rparr>"

text \<open>
  The \<open>while (matchingItem != null)\<close> loop of \<open>forceExpireURL\<close> and
  \<open>forceExpireRequest\<close>: expire the item found, search again.
\<close>

function expireWhile :: "query \<Rightarrow> string list \<Rightarrow> nat option \<Rightarrow> world \<Rightarrow> exn + world" where
  "expireWhile q ts None st = Inr st"
| "expireWhile q ts (Some i) st =
     (case findFetch q ts (expireItem i st) of
        Inl e \<Rightarrow> Inl e
      | Inr m \<Rightarrow> expireWhile q ts m (expireItem i st))"
  by pat_completeness auto

text \<open>
  \<open>FetchSuspense.instances.forEach(instance => instance.hasOneOfTheseTags(this.tags) ?
  instance.emit('elementsExpired') : null)\<close>
\<close>

definition emitElementsExpired :: "string list \<Rightarrow> world \<Rightarrow> world" where
  "emitElementsExpired ts st =
     st\<lparr>instances :=
          map (\<lambda>inst. if hasOneOfTheseTags inst ts then inst\<lparr>emitted := Suc (emitted inst)\<rparr> else inst)
              (instances st)\<rparr>"

definition forceExpire :: "query \<Rightarrow> string list \<Rightarrow> world \<Rightarrow> exn + world" where
  "forceExpire q ts st =
     (case findFetch q ts st of
        Inl e \<Rightarrow> Inl e
      | Inr matchingItem \<Rightarrow>
          (let elementsFound = (matchingItem \<noteq> None) in
           case expireWhile q ts matchingItem st of
             Inl e \<Rightarrow> Inl e
           | Inr st1 \<Rightarrow>
               if elementsFound then cleanCache ts (emitElementsExpired ts st1) else Inr st1))"

definition forceExpireURL :: "string list \<Rightarrow> string \<Rightarrow> world \<Rightarrow> exn + world" where
  "forceExpireURL ts u st = forceExpire (ByURL u) ts st"

definition forceExpireRequest ::
  "string list \<Rightarrow> requestInfo \<Rightarrow> requestInit option \<Rightarrow> world \<Rightarrow> exn + world" where
  "forceExpireRequest ts inp op st = forceExpire (ByRequest inp op) ts st"

fun clearTags :: "string list \<Rightarrow> world \<Rightarrow> world" where
  "clearTags [] st = st"
| "clearTags (tag # rest) st = clearTags rest (st\<lparr>fetchCache := (fetchCache st)(tag \<mapsto> [])\<rparr>)"

definition wipeCache :: "string list \<Rightarrow> world \<Rightarrow> world" where
  "wipeCache ts st = emitElementsExpired ts (clearTags ts st)"

section \<open>The environment: transport completion and timers\<close>

text \<open>The transport answers the call made for the item at address \<open>i\<close>.\<close>

definition finishFetch :: "nat \<Rightarrow> transportResult \<Rightarrow> world \<Rightarrow> world" where
  "finishFetch i r st = st\<lparr>heap := (heap st)(i := generateFetch_finish r (heap st i))\<rparr>"

text \<open>
  Time passes: the clock moves forward and every callback registered with
  \<open>setTimeout\<close> that is due by then runs (\<open>this.expired = true\<close>) and is dropped.
\<close>

fun runTimers :: "(nat \<times> int) list \<Rightarrow> int \<Rightarrow> (nat \<Rightarrow> FetchCacheItem) \<Rightarrow> (nat \<Rightarrow> FetchCacheItem)" where
  "runTimers [] now h = h"
| "runTimers ((i, due) # rest) now h =
     runTimers rest now (if due \<le> now then h(i := (h i)\<lparr>expired := True\<rparr>) else h)"

definition advance :: "int \<Rightarrow> world \<Rightarrow> world" where
  "advance dt st =
     (let now = clock st + dt
      in st\<lparr>clock := now,
            heap := runTimers (timers st) now (heap st),
            timers := filter (\<lambda>(i, due). \<not> due \<le> now) (timers st)\<rparr>)"

section \<open>FetchSuspense (flat-list design, fetch-suspense.ts)\<close>

text \<open>
  The second class \<open>FetchSuspense\<close> of the file keeps one static array
  \<open>fetchCaches\<close> of objects of the interface \<open>FetchCache\<close>. Its names carry the suffix
  \<open>_flat\<close>. \<open>settled_flat\<close> is the state of the promise in the field \<open>fetch\<close>, and
  \<open>lifespan_flat\<close> the argument \<open>lifespan\<close> that the last callback of that promise
  has captured.
\<close>

record FetchCache =
  error_flat :: jsval
  response_flat :: jsval
  input_flat :: requestInfo
  opts_flat :: "requestInit option"
  settled_flat :: bool
  lifespan_flat :: int

record world_flat =
  heap_flat :: "nat \<Rightarrow> FetchCache"
  nextRef_flat :: nat
  fetchCaches :: "nat list"
  transportLog_flat :: "(requestInfo \<times> requestInit option) list"
  timers_flat :: "(nat \<times> int) list"
  clock_flat :: int

definition initialWorld_flat :: world_flat where
  "initialWorld_flat =
     \<lparr>heap_flat = (\<lambda>_. \<lparr>error_flat = JUndefined, response_flat = JUndefined,
                           input_flat = URLString [], opts_flat = None, settled_flat = False,
                           lifespan_flat = 0\<rparr>),
      nextRef_flat = 0, fetchCaches = [], transportLog_flat = [], timers_flat = [],
      clock_flat = 0\<rparr>"

definition fetch_flat ::
  "requestInfo \<Rightarrow> requestInit option \<Rightarrow> int \<Rightarrow> world_flat \<Rightarrow> signal \<times> world_flat" where
  "fetch_flat inp op l st =
     (case find (\<lambda>i. deepEqual inp (input_flat (heap_flat st i))
                      \<and> deepEqual op (opts_flat (heap_flat st i))) (fetchCaches st) of
        Some i \<Rightarrow>
          (if neqNull (error_flat (heap_flat st i)) then (ThrewError (error_flat (heap_flat st i)), st)
           else if neqNull (response_flat (heap_flat st i))
             then (Returned (response_flat (heap_flat st i)), st)
           else (ThrewPromise i, st))
      | None \<Rightarrow>
          (let r = nextRef_flat st;
               fetchCache = \<lparr>error_flat = JUndefined, response_flat = JUndefined,
                              input_flat = inp, opts_flat = op, settled_flat = False,
                              lifespan_flat = l\<rparr>
           in (ThrewPromise r,
               st\<lparr>heap_flat := (heap_flat st)(r := fetchCache),
                   nextRef_flat := Suc r,
                   transportLog_flat := transportLog_flat st @ [(inp, op)],
                   fetchCaches := fetchCaches st @ [r]\<rparr>)))"

text \<open>
  The callbacks chained on the transport's promise: decode, store the response, or
  store what was thrown, and then, if \<open>lifespan > 0\<close>, register the removal of the
  entry with \<open>setTimeout\<close>.
\<close>

definition finishFetch_flat :: "nat \<Rightarrow> transportResult \<Rightarrow> world_flat \<Rightarrow> world_flat" where
  "finishFetch_flat i r st =
     (let item = heap_flat st i;
          item1 = (case decode r of
                     Inr data \<Rightarrow> item\<lparr>response_flat := data, settled_flat := True\<rparr>
                   | Inl e \<Rightarrow> item\<lparr>error_flat := e, settled_flat := True\<rparr>)
      in st\<lparr>heap_flat := (heap_flat st)(i := item1),
            timers_flat := timers_flat st @
              (if lifespan_flat item > 0 then [(i, clock_flat st + timerDelay (lifespan_flat item))]
               else [])\<rparr>)"

text \<open>A due callback removes its entry: \<open>indexOf\<close>, then \<open>splice(index, 1)\<close>.\<close>

fun runTimers_flat :: "(nat \<times> int) list \<Rightarrow> int \<Rightarrow> nat list \<Rightarrow> nat list" where
  "runTimers_flat [] now caches = caches"
| "runTimers_flat ((i, due) # rest) now caches =
     runTimers_flat rest now (if due \<le> now then remove1 i caches else caches)"

definition advance_flat :: "int \<Rightarrow> world_flat \<Rightarrow> world_flat" where
  "advance_flat dt st =
     (let now = clock_flat st + dt
      in st\<lparr>clock_flat := now,
            fetchCaches := runTimers_flat (timers_flat st) now (fetchCaches st),
            timers_flat := filter (\<lambda>(i, due). \<not> due \<le> now) (timers_flat st)\<rparr>)"

definition uriIsInCache_flat :: "string \<Rightarrow> world_flat \<Rightarrow> nat option" where
  "uriIsInCache_flat uri st =
     find (\<lambda>i. case input_flat (heap_flat st i) of Request ru _ \<Rightarrow> ru = uri | URLString s \<Rightarrow> s = uri)
          (fetchCaches st)"

definition forceExpireURL_flat :: "string \<Rightarrow> world_flat \<Rightarrow> world_flat" where
  "forceExpireURL_flat uri st =
     st\<lparr>fetchCaches :=
          filter (\<lambda>i. case input_flat (heap_flat st i) of Request ru _ \<Rightarrow> ru \<noteq> uri
                       | URLString s \<Rightarrow> s \<noteq> uri)
                 (fetchCaches st)\<rparr>"

definition forceExpireRequest_flat ::
  "requestInfo \<Rightarrow> requestInit option \<Rightarrow> world_flat \<Rightarrow> world_flat" where
  "forceExpireRequest_flat inp op st =
     st\<lparr>fetchCaches :=
          filter (\<lambda>i. \<not> deepEqual inp (input_flat (heap_flat st i))
                       \<and> \<not> deepEqual op (opts_flat (heap_flat st i)))
                 (fetchCaches st)\<rparr>"

definition wipeCache_flat :: "world_flat \<Rightarrow> world_flat" where
  "wipeCache_flat st = st\<lparr>fetchCaches := []\<rparr>"

section \<open>Histories\<close>

text \<open>
  Everything that can happen to the world: a call of one of the public operations,
  the transport answering the call made for an item, and time passing.
\<close>

datatype action =
    DoFetch "string list" requestInfo "requestInit option" int
  | DoNonReactFetch "string list" requestInfo "requestInit option" int
  | DoUriIsInCache "string list" string
  | DoForceExpireURL "string list" string
  | DoForceExpireRequest "string list" requestInfo "requestInit option"
  | DoWipeCache "string list"
  | DoNewInstance "tagsArg option"
  | TransportAnswers nat transportResult
  | TimePasses int

fun step :: "action \<Rightarrow> world \<Rightarrow> exn + world" where
  "step (DoFetch ts inp op l) st =
     (case fetch ts inp op l st of Inl e \<Rightarrow> Inl e | Inr (sig, st1) \<Rightarrow> Inr st1)"
| "step (DoNonReactFetch ts inp op l) st =
     (case nonReactFetch ts inp op l st of Inl e \<Rightarrow> Inl e | Inr (r, st1) \<Rightarrow> Inr st1)"
| "step (DoUriIsInCache ts u) st =
     (case uriIsInCache ts u st of Inl e \<Rightarrow> Inl e | Inr b \<Rightarrow> Inr st)"
| "step (DoForceExpireURL ts u) st = forceExpireURL ts u st"
| "step (DoForceExpireRequest ts inp op) st = forceExpireRequest ts inp op st"
| "step (DoWipeCache ts) st = Inr (wipeCache ts st)"
| "step (DoNewInstance arg) st = Inr (new_FetchSuspense arg st)"
| "step (TransportAnswers i r) st = Inr (finishFetch i r st)"
| "step (TimePasses dt) st = Inr (advance dt st)"

fun run :: "action list \<Rightarrow> world \<Rightarrow> exn + world" where
  "run [] st = Inr st"
| "run (a # rest) st = (case step a st of Inl e \<Rightarrow> Inl e | Inr st1 \<Rightarrow> run rest st1)"

text \<open>The actions that can set an \<open>expired\<close> flag: the timers and the two forced expiries.\<close>

fun expires :: "action \<Rightarrow> bool" where
  "expires (TimePasses dt) = True"
| "expires (DoForceExpireURL ts u) = True"
| "expires (DoForceExpireRequest ts inp op) = True"
| "expires a = False"

text \<open>
  A sequence of lookups for one request and lifespan: each is synchronous (\<open>True\<close>) or
  asynchronous (\<open>False\<close>) and has its own tags.
\<close>

fun lookups ::
  "(bool \<times> string list) list \<Rightarrow> requestInfo \<Rightarrow> requestInit option \<Rightarrow> int \<Rightarrow> action list" where
  "lookups [] inp op l = []"
| "lookups ((sync, ts) # rest) inp op l =
     (if sync then DoFetch ts inp op l else DoNonReactFetch ts inp op l) # lookups rest inp op l"

section \<open>Auxiliary notions for the statements\<close>

text \<open>
  Every tag of an instance has an array in \<open>fetchCache\<close>: the constructor creates it and
  nothing deletes it. \<open>live\<close> is the test of the two search loops. \<open>expireAll\<close>,
  \<open>cleaned\<close> and \<open>pushed\<close> describe the worlds that the expiry loop, \<open>cleanCache\<close>
  and the registration loop are shown to produce.
\<close>

definition tagsKnown :: "string list \<Rightarrow> world \<Rightarrow> bool" where
  "tagsKnown ts st = list_all (\<lambda>tag. fetchCache st tag \<noteq> None) ts"

definition live :: "query \<Rightarrow> world \<Rightarrow> nat \<Rightarrow> bool" where
  "live q st i = (matches q (heap st i) \<and> \<not> isExpired (heap st i))"

definition expireAll :: "query \<Rightarrow> string list \<Rightarrow> world \<Rightarrow> world" where
  "expireAll q ts st =
     st\<lparr>heap := (\<lambda>j. if j \<in> set (entriesOf ts st) \<and> matches q (heap st j)
                       then setExpired (heap st j) else heap st j)\<rparr>"

definition cleaned :: "string list \<Rightarrow> world \<Rightarrow> world" where
  "cleaned ts st =
     st\<lparr>fetchCache := (\<lambda>tag. if tag \<in> set ts
                            then map_option (filter (\<lambda>i. \<not> isExpired (heap st i))) (fetchCache st tag)
                            else fetchCache st tag)\<rparr>"

definition pushed :: "string list \<Rightarrow> nat \<Rightarrow> world \<Rightarrow> world" where
  "pushed ts r st =
     st\<lparr>fetchCache := (\<lambda>tag. map_option (\<lambda>items. items @ replicate (count_list ts tag) r)
                                 (fetchCache st tag))\<rparr>"

definition notified :: "string list \<Rightarrow> world \<Rightarrow> world \<Rightarrow> bool" where
  "notified ts st st' =
     (length (instances st') = length (instances st) \<and>
      (\<forall>k < length (instances st).
         tags (instances st' ! k) = tags (instances st ! k) \<and>
         emitted (instances st' ! k) =
           (if set (tags (instances st ! k)) \<inter> set ts \<noteq> {}
            then Suc (emitted (instances st ! k)) else emitted (instances st ! k))))"

text \<open>
  The outcome of an item, as the specification's data model has it: unresolved until
  the fetch completes, then succeeded with the decoded value or failed with the value
  that was thrown. The class has no such field; \<open>hasOutcome\<close> says what the three
  fields hold in each case, and \<open>outcomeOf\<close> is the outcome a transport result leads to.
\<close>

datatype outcome = Unresolved | Succeeded jsval | Failed jsval

fun hasOutcome :: "FetchCacheItem \<Rightarrow> outcome \<Rightarrow> bool" where
  "hasOutcome item Unresolved =
     (\<not> fetchSettled item \<and> error item = JUndefined \<and> response item = JUndefined)"
| "hasOutcome item (Succeeded v) =
     (fetchSettled item \<and> error item = JUndefined \<and> response item = v)"
| "hasOutcome item (Failed e) =
     (fetchSettled item \<and> error item = e \<and> response item = JUndefined)"

definition outcomeOf :: "transportResult \<Rightarrow> outcome" where
  "outcomeOf r = (case decode r of Inl e \<Rightarrow> Failed e | Inr v \<Rightarrow> Succeeded v)"

text \<open>The caller's framework calling the synchronous lookup again and again.\<close>

fun fetchRepeatedly ::
  "nat \<Rightarrow> string list \<Rightarrow> requestInfo \<Rightarrow> requestInit option \<Rightarrow> int \<Rightarrow> world
     \<Rightarrow> exn + (signal list \<times> world)" where
  "fetchRepeatedly 0 ts inp op l st = Inr ([], st)"
| "fetchRepeatedly (Suc n) ts inp op l st =
     (case fetch ts inp op l st of
        Inl e \<Rightarrow> Inl e
      | Inr (sig, st1) \<Rightarrow>
          (case fetchRepeatedly n ts inp op l st1 of
             Inl e \<Rightarrow> Inl e
           | Inr (sigs, st2) \<Rightarrow> Inr (sig # sigs, st2)))"

text \<open>
  The world after a lookup that found nothing: a new item at the next free address,
  pushed onto the array of every tag of the caller.
\<close>

definition created ::
  "string list \<Rightarrow> requestInfo \<Rightarrow> requestInit option \<Rightarrow> int \<Rightarrow> world \<Rightarrow> world" where
  "created ts inp op l st = pushed ts (nextRef st) (snd (new_FetchCacheItem inp op l st))"

text \<open>The URL that \<open>urlEqual\<close> compares: of a \<open>Request\<close> its \<open>url\<close>, else the string.\<close>

definition urlOf :: "requestInfo \<Rightarrow> string" where
  "urlOf inp = (case inp of Request ru _ \<Rightarrow> ru | URLString s \<Rightarrow> s)"

text \<open>An unexpired item matching the query is stored under every one of the given tags.\<close>

definition covered :: "query \<Rightarrow> string list \<Rightarrow> world \<Rightarrow> bool" where
  "covered q ts0 st =
     (\<exists>i. live q st i \<and>
        (\<forall>tag \<in> set ts0. \<exists>items. fetchCache st tag = Some items \<and> i \<in> set items))"

text \<open>Every registered timer belongs to an item that has been allocated.\<close>

definition timersAllocated :: "world \<Rightarrow> bool" where
  "timersAllocated st = list_all (\<lambda>(r, due). r < nextRef st) (timers st)"

text \<open>
  In the flat-list design: every entry of \<open>fetchCaches\<close> and every timer belongs to an
  allocated object, and no object is listed twice.
\<close>

definition allocated_flat :: "world_flat \<Rightarrow> bool" where
  "allocated_flat st =
     (list_all (\<lambda>i. i < nextRef_flat st) (fetchCaches st) \<and> distinct (fetchCaches st)
      \<and> list_all (\<lambda>(i, due). i < nextRef_flat st) (timers_flat st))"

text \<open>The test of the lookup loop of the flat-list \<open>fetch\<close>.\<close>

definition matches_flat :: "requestInfo \<Rightarrow> requestInit option \<Rightarrow> world_flat \<Rightarrow> nat \<Rightarrow> bool" where
  "matches_flat inp op st i =
     (deepEqual inp (input_flat (heap_flat st i)) \<and> deepEqual op (opts_flat (heap_flat st i)))"

text \<open>
  The flat-list world in which the request has been fetched on a miss and \<open>dp\<close>
  milliseconds have passed, and the one in which the transport has then answered and
  another \<open>da\<close> milliseconds have passed.
\<close>

definition pending_flat ::
  "requestInfo \<Rightarrow> requestInit option \<Rightarrow> int \<Rightarrow> int \<Rightarrow> world_flat \<Rightarrow> world_flat" where
  "pending_flat inp op l dp st = advance_flat dp (snd (fetch_flat inp op l st))"

definition answered_flat ::
  "requestInfo \<Rightarrow> requestInit option \<Rightarrow> int \<Rightarrow> int \<Rightarrow> transportResult \<Rightarrow> int \<Rightarrow> world_flat
     \<Rightarrow> world_flat" where
  "answered_flat inp op l dp res da st =
     advance_flat da (finishFetch_flat (nextRef_flat st) res (pending_flat inp op l dp st))"

section \<open>Example worlds\<close>

text \<open>
  Concrete requests, transport results and worlds, built with the operations above,
  on which the general statements are instantiated.
\<close>

definition reqA :: requestInfo where
  "reqA = URLString ''/a''"

definition jsonNull :: transportResult where
  "jsonNull = Inr \<lparr>contentType = Some ''application/json; charset=utf-8'',
                    jsonBody = Inr JNull, textBody = Inr ''null''\<rparr>"

definition worldX :: world where
  "worldX = new_FetchSuspense (Some (TagString ''x'')) initialWorld"

definition worldTags :: world where
  "worldTags =
     new_FetchSuspense (Some (TagString ''b''))
       (new_FetchSuspense (Some (TagString ''a''))
          (new_FetchSuspense (Some (TagArray [''a'', ''b''])) initialWorld))"

definition worldFetched :: world where
  "worldFetched = snd (projr (fetch [''a'', ''b''] reqA None 0 worldTags))"

definition worldNull :: world where
  "worldNull = finishFetch 0 jsonNull worldFetched"

definition jsonOk :: transportResult where
  "jsonOk = Inr \<lparr>contentType = Some ''application/json'',
                  jsonBody = Inr (JObj [(''id'', JNum 7)]), textBody = Inr ''{\"id\":7}''\<rparr>"

definition networkError :: transportResult where
  "networkError = Inl (JStr ''TypeError: Failed to fetch'')"

definition worldOk :: world where
  "worldOk = finishFetch 0 jsonOk worldFetched"

definition worldFailed :: world where
  "worldFailed = finishFetch 0 networkError worldFetched"

definition rejectedNull :: transportResult where
  "rejectedNull = Inl JNull"

definition badJson :: transportResult where
  "badJson = Inr \<lparr>contentType = Some ''application/json'',
                   jsonBody = Inl (JStr ''SyntaxError: Unexpected token < in JSON''),
                   textBody = Inr ''<html>''\<rparr>"

definition worldRejectedNull :: world where
  "worldRejectedNull = finishFetch 0 rejectedNull worldFetched"

definition worldExpiredA :: world where
  "worldExpiredA = projr (forceExpireRequest [''a''] reqA None worldFetched)"

definition someActions :: "action list" where
  "someActions =
     [TransportAnswers 0 jsonOk, DoFetch [''b''] reqA None 5, TimePasses 10,
      DoForceExpireURL [''a'', ''b''] ''/a'', DoWipeCache [''a''], DoNonReactFetch [''a''] reqA None 0]"

definition reqB :: requestInfo where
  "reqB = URLString ''/b''"

definition optsPost :: "requestInit option" where
  "optsPost = Some [(''method'', JStr ''POST'')]"

text \<open>
  Three entries: \<open>/a\<close> without options, \<open>/b\<close> without options, and \<open>/a\<close> with the
  method \<open>POST\<close>; once in the flat list, once under the tag \<open>x\<close>.
\<close>

definition worldThree_flat :: world_flat where
  "worldThree_flat =
     snd (fetch_flat reqA optsPost 0 (snd (fetch_flat reqB None 0
       (snd (fetch_flat reqA None 0 initialWorld_flat)))))"

definition worldThree :: world where
  "worldThree =
     snd (projr (fetch [''x''] reqA optsPost 0 (snd (projr (fetch [''x''] reqB None 0
       (snd (projr (fetch [''x''] reqA None 0 worldX))))))))"

definition worldNegative :: world where
  "worldNegative = snd (projr (fetch [''a''] reqA None (- 1) worldTags))"

definition worldLate_flat :: world_flat where
  "worldLate_flat =
     advance_flat 600 (finishFetch_flat 0 jsonOk (advance_flat 400
       (snd (fetch_flat reqA None 1000 initialWorld_flat))))"

section \<open>Basic facts about the operations\<close>

lemma setExpired_simps:
  "expired (setExpired item) = True"
  "error (setExpired item) = error item"
  "response (setExpired item) = response item"
  "fetchSettled (setExpired item) = fetchSettled item"
  "input (setExpired item) = input item"
  "opts (setExpired item) = opts item"
  "lifespan (setExpired item) = lifespan item"
  by (simp_all add: setExpired_def)

lemma matches_setExpired: "matches q (setExpired item) = matches q item"
  by (cases q) (simp_all add: urlEqual_def argsEqual_def setExpired_def)

lemma expireItem_simps:
  "heap (expireItem i st) = (heap st)(i := setExpired (heap st i))"
  "fetchCache (expireItem i st) = fetchCache st"
  "nextRef (expireItem i st) = nextRef st"
  "instances (expireItem i st) = instances st"
  "transportLog (expireItem i st) = transportLog st"
  "timers (expireItem i st) = timers st"
  "clock (expireItem i st) = clock st"
  by (simp_all add: expireItem_def)

lemma entriesOf_expireItem: "entriesOf ts (expireItem i st) = entriesOf ts st"
  by (simp add: entriesOf_def expireItem_simps)

lemma entriesOf_Cons:
  "entriesOf (tag # ts) st =
     (case fetchCache st tag of None \<Rightarrow> [] | Some items \<Rightarrow> items) @ entriesOf ts st"
  by (simp add: entriesOf_def)

lemma findFetch_Some:
  "findFetch q ts st = Inr (Some j) \<Longrightarrow>
     j \<in> set (entriesOf ts st) \<and> matches q (heap st j) \<and> \<not> expired (heap st j)"
proof (induction ts)
  case Nil
  then show ?case by simp
next
  case (Cons tag ts)
  then show ?case
    by (auto simp: entriesOf_Cons isExpired_def find_Some_iff split: option.splits)
qed

lemma live_filter_less:
  "j \<in> set xs \<Longrightarrow> \<not> expired (h j) \<Longrightarrow>
     length (filter (\<lambda>i. \<not> expired ((h(j := setExpired (h j))) i)) xs)
       < length (filter (\<lambda>i. \<not> expired (h i)) xs)"
proof (induction xs)
  case Nil
  then show ?case by simp
next
  case (Cons x xs)
  have le: "length (filter (\<lambda>i. \<not> expired ((h(j := setExpired (h j))) i)) xs)
              \<le> length (filter (\<lambda>i. \<not> expired (h i)) xs)" for xs
    by (induction xs) (auto simp: setExpired_simps)
  show ?case
  proof (cases "x = j")
    case True
    with Cons.prems le [of xs] show ?thesis by (simp add: setExpired_simps less_Suc_eq_le)
  next
    case False
    with Cons show ?thesis by (auto simp: setExpired_simps)
  qed
qed

lemma liveCount_expireItem:
  "findFetch q ts st = Inr (Some j) \<Longrightarrow> liveCount ts (expireItem j st) < liveCount ts st"
proof -
  assume "findFetch q ts st = Inr (Some j)"
  then have "j \<in> set (entriesOf ts st)" and "\<not> expired (heap st j)"
    by (simp_all add: findFetch_Some)
  then show ?thesis
    unfolding liveCount_def entriesOf_expireItem expireItem_simps
    by (rule live_filter_less)
qed

termination expireWhile
proof (relation "measure (\<lambda>(q, ts, m, st).
         case m of None \<Rightarrow> 0 | Some i \<Rightarrow> Suc (liveCount ts (expireItem i st)))")
  show "wf (measure (\<lambda>(q, ts, m, st).
         case m of None \<Rightarrow> 0 | Some i \<Rightarrow> Suc (liveCount ts (expireItem i st))))"
    by simp
next
  fix q :: query and ts :: "string list" and i :: nat and st :: world and m :: "nat option"
  assume "findFetch q ts (expireItem i st) = Inr m"
  then show "((q, ts, m, expireItem i st), q, ts, Some i, st)
      \<in> measure (\<lambda>(q, ts, m, st).
           case m of None \<Rightarrow> 0 | Some i \<Rightarrow> Suc (liveCount ts (expireItem i st)))"
    by (cases m) (simp_all add: liveCount_expireItem)
qed

lemma find_append:
  "find P (xs @ ys) = (case find P xs of Some x \<Rightarrow> Some x | None \<Rightarrow> find P ys)"
  by (induction xs) auto

lemma tagsKnown_Cons:
  "tagsKnown (tag # ts) st = (fetchCache st tag \<noteq> None \<and> tagsKnown ts st)"
  by (simp add: tagsKnown_def)

lemma findFetch_find:
  "tagsKnown ts st \<Longrightarrow> findFetch q ts st = Inr (find (live q st) (entriesOf ts st))"
proof (induction ts)
  case Nil
  then show ?case by (simp add: entriesOf_def)
next
  case (Cons tag ts)
  then obtain items where items: "fetchCache st tag = Some items" and rest: "tagsKnown ts st"
    by (auto simp: tagsKnown_Cons)
  have "live q st = (\<lambda>i. matches q (heap st i) \<and> \<not> isExpired (heap st i))"
    by (simp add: live_def fun_eq_iff)
  with items rest Cons.IH show ?case
    by (simp add: entriesOf_Cons find_append split: option.splits)
qed

lemma findFetch_known:
  "tagsKnown ts st \<Longrightarrow> \<exists>m. findFetch q ts st = Inr m"
  by (simp add: findFetch_find)

lemma tagsKnown_expireItem: "tagsKnown ts (expireItem i st) = tagsKnown ts st"
  by (simp add: tagsKnown_def expireItem_simps)

lemma setExpired_idem: "expired item \<Longrightarrow> setExpired item = item"
  by (simp add: setExpired_def)

lemma setExpired_twice: "setExpired (setExpired item) = setExpired item"
  by (simp add: setExpired_def)

lemma entriesOf_heap_update: "entriesOf ts (st\<lparr>heap := h\<rparr>) = entriesOf ts st"
  by (simp add: entriesOf_def)

lemma expireAll_expireItem:
  assumes "i \<in> set (entriesOf ts st)" and "matches q (heap st i)"
  shows "expireAll q ts (expireItem i st) = expireAll q ts st"
  using assms
  by (intro world.equality)
     (auto simp: expireAll_def expireItem_def entriesOf_heap_update fun_eq_iff
        matches_setExpired setExpired_twice)

lemma expireAll_none:
  assumes "find (live q st) (entriesOf ts st) = None"
  shows "expireAll q ts st = st"
proof -
  have "\<And>j. j \<in> set (entriesOf ts st) \<Longrightarrow> matches q (heap st j) \<Longrightarrow> expired (heap st j)"
    using assms by (auto simp: find_None_iff live_def isExpired_def)
  then have "(\<lambda>j. if j \<in> set (entriesOf ts st) \<and> matches q (heap st j)
              then setExpired (heap st j) else heap st j) = heap st"
    by (auto simp: fun_eq_iff setExpired_idem)
  then show ?thesis by (simp add: expireAll_def)
qed

lemma expireWhile_expireAll:
  "tagsKnown ts st \<Longrightarrow> findFetch q ts st = Inr m \<Longrightarrow>
     expireWhile q ts m st = Inr (expireAll q ts st)"
proof (induction q ts m st rule: expireWhile.induct)
  case (1 q ts st)
  then show ?case by (simp add: findFetch_find expireAll_none)
next
  case (2 q ts i st)
  from "2.prems" have known: "tagsKnown ts (expireItem i st)"
    by (simp add: tagsKnown_expireItem)
  then obtain m' where m': "findFetch q ts (expireItem i st) = Inr m'"
    using findFetch_known by blast
  from "2.prems" have i: "i \<in> set (entriesOf ts st)" "matches q (heap st i)"
    by (simp_all add: findFetch_Some)
  from "2.IH" [OF m' known m'] m' i show ?case
    by (simp add: expireAll_expireItem)
qed

lemma cleanCache_cleaned: "tagsKnown ts st \<Longrightarrow> cleanCache ts st = Inr (cleaned ts st)"
proof (induction ts arbitrary: st)
  case Nil
  then show ?case by (simp add: cleaned_def)
next
  case (Cons tag ts)
  then obtain items where items: "fetchCache st tag = Some items" and rest: "tagsKnown ts st"
    by (auto simp: tagsKnown_Cons)
  let ?st1 = "st\<lparr>fetchCache := (fetchCache st)(tag \<mapsto> filter (\<lambda>i. \<not> isExpired (heap st i)) items)\<rparr>"
  from rest have "tagsKnown ts ?st1"
    by (simp add: tagsKnown_def list_all_iff)
  then have "cleanCache ts ?st1 = Inr (cleaned ts ?st1)"
    by (rule Cons.IH)
  moreover have "cleaned ts ?st1 = cleaned (tag # ts) st"
    using items by (intro world.equality) (auto simp: cleaned_def fun_eq_iff)
  ultimately show ?case using items by simp
qed

lemma pushAll_pushed: "tagsKnown ts st \<Longrightarrow> pushAll ts r st = Inr (pushed ts r st)"
proof (induction ts arbitrary: st)
  case Nil
  then show ?case by (simp add: pushed_def option.map_ident)
next
  case (Cons tag ts)
  then obtain items where items: "fetchCache st tag = Some items" and rest: "tagsKnown ts st"
    by (auto simp: tagsKnown_Cons)
  let ?st1 = "st\<lparr>fetchCache := (fetchCache st)(tag \<mapsto> items @ [r])\<rparr>"
  from rest have "tagsKnown ts ?st1"
    by (simp add: tagsKnown_def list_all_iff)
  then have "pushAll ts r ?st1 = Inr (pushed ts r ?st1)"
    by (rule Cons.IH)
  moreover have "pushed ts r ?st1 = pushed (tag # ts) r st"
    using items by (intro world.equality) (auto simp: pushed_def fun_eq_iff replicate_append_same)
  ultimately show ?case using items by simp
qed

lemma tagsKnown_heap_update: "tagsKnown ts (st\<lparr>heap := h\<rparr>) = tagsKnown ts st"
  by (simp add: tagsKnown_def)

lemma tagsKnown_expireAll: "tagsKnown ts' (expireAll q ts st) = tagsKnown ts' st"
  by (simp add: expireAll_def tagsKnown_def)

lemma tagsKnown_emit: "tagsKnown ts' (emitElementsExpired ts st) = tagsKnown ts' st"
  by (simp add: emitElementsExpired_def tagsKnown_def)

lemma tagsKnown_cleaned: "tagsKnown ts' (cleaned ts st) = tagsKnown ts' st"
  by (simp add: cleaned_def tagsKnown_def list_all_iff)

lemma tagsKnown_pushed: "tagsKnown ts' (pushed ts r st) = tagsKnown ts' st"
  by (simp add: pushed_def tagsKnown_def list_all_iff)

lemma forceExpire_eq:
  assumes "tagsKnown ts st"
  shows "forceExpire q ts st =
           Inr (if find (live q st) (entriesOf ts st) = None then st
                else cleaned ts (emitElementsExpired ts (expireAll q ts st)))"
proof -
  have f: "findFetch q ts st = Inr (find (live q st) (entriesOf ts st))"
    using assms by (rule findFetch_find)
  have w: "expireWhile q ts (find (live q st) (entriesOf ts st)) st = Inr (expireAll q ts st)"
    using assms f by (rule expireWhile_expireAll)
  have c: "cleanCache ts (emitElementsExpired ts (expireAll q ts st))
             = Inr (cleaned ts (emitElementsExpired ts (expireAll q ts st)))"
    using assms by (intro cleanCache_cleaned) (simp add: tagsKnown_emit tagsKnown_expireAll)
  show ?thesis
    by (simp add: forceExpire_def f w c expireAll_none)
qed

lemma hasOneOfTheseTags_iff: "hasOneOfTheseTags inst ts = (set (tags inst) \<inter> set ts \<noteq> {})"
  by (auto simp: hasOneOfTheseTags_def list_ex_iff)

lemma notified_emit:
  "instances st' = instances (emitElementsExpired ts st) \<Longrightarrow> notified ts st st'"
  by (simp add: notified_def emitElementsExpired_def hasOneOfTheseTags_iff)

lemma clearTags_fetchCache:
  "fetchCache (clearTags ts st) = (\<lambda>tag. if tag \<in> set ts then Some [] else fetchCache st tag)"
  by (induction ts arbitrary: st) (auto simp: fun_eq_iff)

lemma clearTags_instances: "instances (clearTags ts st) = instances st"
  by (induction ts arbitrary: st) auto

lemma wipeCache_fetchCache:
  "fetchCache (wipeCache ts st) = (\<lambda>tag. if tag \<in> set ts then Some [] else fetchCache st tag)"
  by (simp add: wipeCache_def emitElementsExpired_def clearTags_fetchCache)

lemma notified_wipeCache: "notified ts st (wipeCache ts st)"
proof -
  have "instances (wipeCache ts st) = instances (emitElementsExpired ts st)"
    by (simp add: wipeCache_def emitElementsExpired_def clearTags_instances)
  then show ?thesis by (rule notified_emit)
qed

lemma set_entriesOf:
  "set (entriesOf ts st) = {i. \<exists>tag \<in> set ts. \<exists>items. fetchCache st tag = Some items \<and> i \<in> set items}"
  by (induction ts) (auto simp: entriesOf_Cons entriesOf_def split: option.splits)

lemma entriesOf_cleaned: "set (entriesOf ts' (cleaned ts st)) \<subseteq> set (entriesOf ts' st)"
proof
  fix i
  assume "i \<in> set (entriesOf ts' (cleaned ts st))"
  then obtain tag items where tag: "tag \<in> set ts'"
    and items: "fetchCache (cleaned ts st) tag = Some items" and i: "i \<in> set items"
    by (auto simp: set_entriesOf)
  from items obtain items0 where "fetchCache st tag = Some items0" and "set items \<subseteq> set items0"
    by (auto simp: cleaned_def split: if_splits)
  with tag i show "i \<in> set (entriesOf ts' st)"
    by (auto simp: set_entriesOf)
qed

lemma forceExpire_nothing_left:
  "find (live q (cleaned ts (emitElementsExpired ts (expireAll q ts st))))
        (entriesOf ts (cleaned ts (emitElementsExpired ts (expireAll q ts st)))) = None"
proof -
  let ?st2 = "emitElementsExpired ts (expireAll q ts st)"
  have e: "entriesOf ts ?st2 = entriesOf ts st"
    by (simp add: entriesOf_def emitElementsExpired_def expireAll_def)
  have "\<not> live q (cleaned ts ?st2) j" if "j \<in> set (entriesOf ts (cleaned ts ?st2))" for j
  proof -
    from that entriesOf_cleaned [of ts ts ?st2] e have "j \<in> set (entriesOf ts st)" by auto
    then show ?thesis
      by (simp add: live_def cleaned_def emitElementsExpired_def expireAll_def isExpired_def
          setExpired_simps)
  qed
  then show ?thesis by (simp add: find_None_iff)
qed

section \<open>Invalidation and notification\<close>

text \<open>
  Claim C8. \<open>wipeCache\<close> sets the array of every tag of the caller to empty, leaves the
  other tags alone, and makes every instance whose tags intersect the caller's emit
  \<open>elementsExpired\<close> once, whatever the arrays held before. \<open>forceExpireURL\<close> and
  \<open>forceExpireRequest\<close> (\<open>forceExpire\<close> with either kind of query) change nothing at
  all, and so notify nobody, when the first search finds no item; when it finds one,
  the instances whose tags intersect the caller's are notified. Called a second time on
  the world it produced, the operation returns that world unchanged.
\<close>

theorem wipeCache_always_notifies_forceExpire_only_on_removal:
  "(\<forall>tag. fetchCache (wipeCache ts st) tag = (if tag \<in> set ts then Some [] else fetchCache st tag))
   \<and> notified ts st (wipeCache ts st)
   \<and> (findFetch q ts st = Inr None \<longrightarrow> forceExpire q ts st = Inr st)
   \<and> (tagsKnown ts st \<longrightarrow>
        (\<exists>st'. forceExpire q ts st = Inr st'
           \<and> (findFetch q ts st \<noteq> Inr None \<longrightarrow> notified ts st st')
           \<and> forceExpire q ts st' = Inr st'))"
proof (intro conjI impI allI)
  show "fetchCache (wipeCache ts st) tag = (if tag \<in> set ts then Some [] else fetchCache st tag)"
    for tag
    by (simp add: wipeCache_fetchCache)
  show "notified ts st (wipeCache ts st)"
    by (rule notified_wipeCache)
  show "forceExpire q ts st = Inr st" if "findFetch q ts st = Inr None"
    using that by (simp add: forceExpire_def)
next
  assume known: "tagsKnown ts st"
  let ?st2 = "cleaned ts (emitElementsExpired ts (expireAll q ts st))"
  show "\<exists>st'. forceExpire q ts st = Inr st'
           \<and> (findFetch q ts st \<noteq> Inr None \<longrightarrow> notified ts st st')
           \<and> forceExpire q ts st' = Inr st'"
  proof (cases "find (live q st) (entriesOf ts st)")
    case None
    with known show ?thesis
      by (simp add: forceExpire_eq findFetch_find)
  next
    case (Some i)
    have known2: "tagsKnown ts ?st2"
      using known by (simp add: tagsKnown_cleaned tagsKnown_emit tagsKnown_expireAll)
    have "forceExpire q ts st = Inr ?st2"
      using known Some by (simp add: forceExpire_eq)
    moreover have "notified ts st ?st2"
      by (rule notified_emit) (simp add: cleaned_def emitElementsExpired_def expireAll_def)
    moreover have "forceExpire q ts ?st2 = Inr ?st2"
      using known2 by (simp add: forceExpire_eq forceExpire_nothing_left)
    ultimately show ?thesis by simp
  qed
qed

text \<open>
  An instance tagged \<open>x\<close> with an empty array is notified by \<open>wipeCache\<close> and not by
  \<open>forceExpireURL\<close>; an instance holding a matching item is notified by
  \<open>forceExpireRequest\<close>.
\<close>

theorem wipeCache_always_notifies_witness:
  "findFetch (ByURL ''/a'') [''x''] worldX = Inr None
   \<and> forceExpire (ByURL ''/a'') [''x''] worldX = Inr worldX
   \<and> fetchCache worldX ''x'' = Some []
   \<and> notified [''x''] worldX (wipeCache [''x''] worldX)
   \<and> tagsKnown [''a''] worldFetched
   \<and> findFetch (ByRequest reqA None) [''a''] worldFetched = Inr (Some 0)
   \<and> (\<exists>st'. forceExpire (ByRequest reqA None) [''a''] worldFetched = Inr st'
         \<and> notified [''a''] worldFetched st'
         \<and> forceExpire (ByRequest reqA None) [''a''] st' = Inr st')"
proof -
  have none: "findFetch (ByURL ''/a'') [''x''] worldX = Inr None"
    by code_simp
  have empty: "fetchCache worldX ''x'' = Some []"
    by code_simp
  have known: "tagsKnown [''a''] worldFetched"
    by code_simp
  have found: "findFetch (ByRequest reqA None) [''a''] worldFetched = Inr (Some 0)"
    by code_simp
  from none empty known found
    wipeCache_always_notifies_forceExpire_only_on_removal
      [of "[''x'']" worldX "ByURL ''/a''"]
    wipeCache_always_notifies_forceExpire_only_on_removal
      [of "[''a'']" worldFetched "ByRequest reqA None"]
  show ?thesis by simp
qed

lemma new_item_unresolved:
  "new_FetchCacheItem inp op l st = (r, st1) \<Longrightarrow>
     r = nextRef st \<and> hasOutcome (heap st1 r) Unresolved \<and> \<not> expired (heap st1 r)
     \<and> input (heap st1 r) = inp \<and> opts (heap st1 r) = op \<and> lifespan (heap st1 r) = l"
  by (auto simp: new_FetchCacheItem_def Let_def)

lemma finish_outcome:
  "hasOutcome item Unresolved \<Longrightarrow> hasOutcome (generateFetch_finish r item) (outcomeOf r)"
  by (auto simp: generateFetch_finish_def outcomeOf_def split: sum.splits)

lemma finishFetch_simps:
  "heap (finishFetch i r st) = (heap st)(i := generateFetch_finish r (heap st i))"
  "fetchCache (finishFetch i r st) = fetchCache st"
  "nextRef (finishFetch i r st) = nextRef st"
  "instances (finishFetch i r st) = instances st"
  "transportLog (finishFetch i r st) = transportLog st"
  "timers (finishFetch i r st) = timers st"
  "clock (finishFetch i r st) = clock st"
  by (simp_all add: finishFetch_def)

lemma fetch_found:
  "findFetchItem ts inp op st = Inr (Some i) \<Longrightarrow>
     fetch ts inp op l st =
       Inr (if neqNull (error (heap st i)) then ThrewError (error (heap st i))
            else if neqNull (response (heap st i)) then Returned (response (heap st i))
            else ThrewPromise i, st)"
  by (simp add: fetch_def)

lemma nonReactFetch_found:
  "findFetchItem ts inp op st = Inr (Some i) \<Longrightarrow> nonReactFetch ts inp op l st = Inr (i, st)"
  by (simp add: nonReactFetch_def)

lemma fetchRepeatedly_same:
  "fetch ts inp op l st = Inr (sig, st) \<Longrightarrow>
     fetchRepeatedly n ts inp op l st = Inr (replicate n sig, st)"
  by (induction n) simp_all

section \<open>Outcomes that are null\<close>

text \<open>
  Claim C10. When the fetch of an unresolved item completes successfully with a decoded
  value that is \<open>null\<close> or \<open>undefined\<close>, the item's outcome is succeeded and its
  \<open>fetch\<close> promise is settled, yet every synchronous lookup that finds the item throws
  that promise again, however often it is repeated, and never returns the value; the
  promise of the asynchronous lookup is fulfilled with the value.
\<close>

theorem null_response_never_returned:
  assumes "hasOutcome (heap st i) Unresolved"
    and "decode r = Inr v" and "\<not> neqNull v"
    and "findFetchItem ts inp op (finishFetch i r st) = Inr (Some i)"
  shows "hasOutcome (heap (finishFetch i r st) i) (Succeeded v)
     \<and> fetchSettled (heap (finishFetch i r st) i)
     \<and> fetch ts inp op l (finishFetch i r st) = Inr (ThrewPromise i, finishFetch i r st)
     \<and> fetchRepeatedly n ts inp op l (finishFetch i r st)
         = Inr (replicate n (ThrewPromise i), finishFetch i r st)
     \<and> nonReactFetch ts inp op l (finishFetch i r st) = Inr (i, finishFetch i r st)
     \<and> getPromise (heap (finishFetch i r st) i) = Fulfilled v"
proof -
  let ?st1 = "finishFetch i r st"
  have out: "hasOutcome (heap ?st1 i) (Succeeded v)"
    using finish_outcome [OF assms(1), of r] assms(2)
    by (simp add: finishFetch_simps outcomeOf_def)
  then have fields: "fetchSettled (heap ?st1 i)" "error (heap ?st1 i) = JUndefined"
    "response (heap ?st1 i) = v"
    by simp_all
  have f: "fetch ts inp op l ?st1 = Inr (ThrewPromise i, ?st1)"
    using assms(3) fields by (simp add: fetch_found [OF assms(4)] neqNull_def)
  have g: "getPromise (heap ?st1 i) = Fulfilled v"
    using fields by (simp add: getPromise_def neqNull_def)
  from out fields(1) f g fetchRepeatedly_same [OF f] nonReactFetch_found [OF assms(4)]
  show ?thesis by simp
qed

text \<open>The item of the example world, completed with the JSON body \<open>null\<close>.\<close>

theorem null_response_never_returned_witness:
  "hasOutcome (heap worldFetched 0) Unresolved
   \<and> decode jsonNull = Inr JNull \<and> \<not> neqNull JNull
   \<and> findFetchItem [''a''] reqA None (finishFetch 0 jsonNull worldFetched) = Inr (Some 0)
   \<and> fetchRepeatedly 3 [''a''] reqA None 0 (finishFetch 0 jsonNull worldFetched)
       = Inr (replicate 3 (ThrewPromise 0), finishFetch 0 jsonNull worldFetched)
   \<and> getPromise (heap (finishFetch 0 jsonNull worldFetched) 0) = Fulfilled JNull"
proof -
  have h1: "hasOutcome (heap worldFetched 0) Unresolved" by code_simp
  have h2: "decode jsonNull = Inr JNull" by code_simp
  have h3: "\<not> neqNull JNull" by code_simp
  have h4: "findFetchItem [''a''] reqA None (finishFetch 0 jsonNull worldFetched) = Inr (Some 0)"
    by code_simp
  from null_response_never_returned [OF h1 h2 h3 h4, where n = 3 and l = 0] h1 h2 h3 h4
  show ?thesis by simp
qed

lemma created_simps:
  "heap (created ts inp op l st) =
     (heap st)(nextRef st := \<lparr>error = JUndefined, response = JUndefined, lifespan = l,
        expired = False, fetchSettled = False, input = inp, opts = op\<rparr>)"
  "nextRef (created ts inp op l st) = Suc (nextRef st)"
  "transportLog (created ts inp op l st) = transportLog st @ [(inp, op)]"
  "timers (created ts inp op l st) =
     timers st @ (if l \<noteq> 0 then [(nextRef st, clock st + timerDelay l)] else [])"
  "instances (created ts inp op l st) = instances st"
  "clock (created ts inp op l st) = clock st"
  "fetchCache (created ts inp op l st) tag =
     map_option (\<lambda>items. items @ replicate (count_list ts tag) (nextRef st)) (fetchCache st tag)"
  by (simp_all add: created_def pushed_def new_FetchCacheItem_def Let_def)

lemma tagsKnown_created: "tagsKnown ts' (created ts inp op l st) = tagsKnown ts' st"
  by (simp add: tagsKnown_def created_simps)

lemma fetch_miss:
  assumes "tagsKnown ts st" and "findFetchItem ts inp op st = Inr None"
  shows "fetch ts inp op l st = Inr (ThrewPromise (nextRef st), created ts inp op l st)"
proof -
  obtain r st1 where new: "new_FetchCacheItem inp op l st = (r, st1)"
    by (cases "new_FetchCacheItem inp op l st")
  then have r: "r = nextRef st" and fc: "fetchCache st1 = fetchCache st"
    by (auto simp: new_FetchCacheItem_def Let_def)
  from assms(1) fc have "tagsKnown ts st1" by (simp add: tagsKnown_def)
  then have "pushAll ts r st1 = Inr (pushed ts r st1)" by (rule pushAll_pushed)
  with new r assms(2) show ?thesis by (simp add: fetch_def created_def)
qed

lemma nonReactFetch_miss:
  assumes "tagsKnown ts st" and "findFetchItem ts inp op st = Inr None"
  shows "nonReactFetch ts inp op l st = Inr (nextRef st, created ts inp op l st)"
proof -
  obtain r st1 where new: "new_FetchCacheItem inp op l st = (r, st1)"
    by (cases "new_FetchCacheItem inp op l st")
  then have r: "r = nextRef st" and fc: "fetchCache st1 = fetchCache st"
    by (auto simp: new_FetchCacheItem_def Let_def)
  from assms(1) fc have "tagsKnown ts st1" by (simp add: tagsKnown_def)
  then have "pushAll ts r st1 = Inr (pushed ts r st1)" by (rule pushAll_pushed)
  with new r assms(2) show ?thesis by (simp add: nonReactFetch_def created_def)
qed

lemma findFetchItem_find:
  "tagsKnown ts st \<Longrightarrow>
     findFetchItem ts inp op st =
       Inr (find (\<lambda>i. argsEqual (heap st i) inp op \<and> \<not> isExpired (heap st i)) (entriesOf ts st))"
proof -
  have "live (ByRequest inp op) st = (\<lambda>i. argsEqual (heap st i) inp op \<and> \<not> isExpired (heap st i))"
    by (simp add: live_def fun_eq_iff)
  then show "tagsKnown ts st \<Longrightarrow> ?thesis"
    by (simp add: findFetchItem_def findFetch_find)
qed

lemma created_registered:
  assumes "tagsKnown ts st" and "tag \<in> set ts"
  shows "\<exists>items. fetchCache (created ts inp op l st) tag = Some items \<and> nextRef st \<in> set items"
proof -
  from assms obtain items where "fetchCache st tag = Some items"
    by (auto simp: tagsKnown_def list_all_iff)
  moreover from assms(2) have "0 < count_list ts tag"
    using count_list_0_iff [of ts tag] by auto
  ultimately show ?thesis by (auto simp: created_simps)
qed

section \<open>The synchronous lookup\<close>

text \<open>
  Claim C1, as amended. The search of the synchronous lookup returns the first item, in
  the order of the caller's tags and of each tag's array, that matches the request and
  is not expired. If it finds an item whose outcome is failed with an error that is not
  \<open>null\<close> or \<open>undefined\<close>, the lookup throws that error; if the outcome is succeeded with
  a value that is not \<open>null\<close> or \<open>undefined\<close>, it returns that value; if the item is
  unresolved, it throws the item's promise; in all three cases the world is unchanged.
  If it finds nothing, a new unresolved, unexpired item for the request and lifespan is
  created, the transport is called once, the item is pushed under every tag of the caller
  and its promise is thrown.
\<close>

theorem fetch_priority_order:
  "(tagsKnown ts st \<longrightarrow>
      findFetchItem ts inp op st =
        Inr (find (\<lambda>i. argsEqual (heap st i) inp op \<and> \<not> isExpired (heap st i)) (entriesOf ts st)))
   \<and> (findFetchItem ts inp op st = Inr (Some i) \<and> hasOutcome (heap st i) (Failed e) \<and> neqNull e
        \<longrightarrow> fetch ts inp op l st = Inr (ThrewError e, st))
   \<and> (findFetchItem ts inp op st = Inr (Some i) \<and> hasOutcome (heap st i) (Succeeded v) \<and> neqNull v
        \<longrightarrow> fetch ts inp op l st = Inr (Returned v, st))
   \<and> (findFetchItem ts inp op st = Inr (Some i) \<and> hasOutcome (heap st i) Unresolved
        \<longrightarrow> fetch ts inp op l st = Inr (ThrewPromise i, st))
   \<and> (tagsKnown ts st \<and> findFetchItem ts inp op st = Inr None
        \<longrightarrow> (\<exists>st'. fetch ts inp op l st = Inr (ThrewPromise (nextRef st), st')
              \<and> hasOutcome (heap st' (nextRef st)) Unresolved
              \<and> \<not> expired (heap st' (nextRef st))
              \<and> argsEqual (heap st' (nextRef st)) inp op
              \<and> lifespan (heap st' (nextRef st)) = l
              \<and> nextRef st' = Suc (nextRef st)
              \<and> transportLog st' = transportLog st @ [(inp, op)]
              \<and> (\<forall>tag \<in> set ts. \<exists>items. fetchCache st' tag = Some items \<and> nextRef st \<in> set items)))"
proof (intro conjI impI)
  show "findFetchItem ts inp op st =
        Inr (find (\<lambda>i. argsEqual (heap st i) inp op \<and> \<not> isExpired (heap st i)) (entriesOf ts st))"
    if "tagsKnown ts st"
    using that by (rule findFetchItem_find)
  show "fetch ts inp op l st = Inr (ThrewError e, st)"
    if "findFetchItem ts inp op st = Inr (Some i) \<and> hasOutcome (heap st i) (Failed e) \<and> neqNull e"
    using that by (simp add: fetch_found)
  show "fetch ts inp op l st = Inr (Returned v, st)"
    if "findFetchItem ts inp op st = Inr (Some i) \<and> hasOutcome (heap st i) (Succeeded v) \<and> neqNull v"
    using that by (simp add: fetch_found neqNull_def)
  show "fetch ts inp op l st = Inr (ThrewPromise i, st)"
    if "findFetchItem ts inp op st = Inr (Some i) \<and> hasOutcome (heap st i) Unresolved"
    using that by (simp add: fetch_found neqNull_def)
next
  assume a: "tagsKnown ts st \<and> findFetchItem ts inp op st = Inr None"
  then have "fetch ts inp op l st = Inr (ThrewPromise (nextRef st), created ts inp op l st)"
    by (simp add: fetch_miss)
  moreover have "\<forall>tag \<in> set ts. \<exists>items.
      fetchCache (created ts inp op l st) tag = Some items \<and> nextRef st \<in> set items"
    using a by (simp add: created_registered)
  ultimately show "\<exists>st'. fetch ts inp op l st = Inr (ThrewPromise (nextRef st), st')
              \<and> hasOutcome (heap st' (nextRef st)) Unresolved
              \<and> \<not> expired (heap st' (nextRef st))
              \<and> argsEqual (heap st' (nextRef st)) inp op
              \<and> lifespan (heap st' (nextRef st)) = l
              \<and> nextRef st' = Suc (nextRef st)
              \<and> transportLog st' = transportLog st @ [(inp, op)]
              \<and> (\<forall>tag \<in> set ts. \<exists>items. fetchCache st' tag = Some items \<and> nextRef st \<in> set items)"
    by (simp add: created_simps(1-3) argsEqual_def deepEqual_def)
qed

text \<open>
  Each case on an example world: the item failed, succeeded and unresolved, and the
  world in which nothing has been fetched yet.
\<close>

theorem fetch_priority_order_witness:
  "fetch [''b'', ''a''] reqA None 0 worldFailed
      = Inr (ThrewError (JStr ''TypeError: Failed to fetch''), worldFailed)
   \<and> fetch [''b'', ''a''] reqA None 0 worldOk = Inr (Returned (JObj [(''id'', JNum 7)]), worldOk)
   \<and> fetch [''b'', ''a''] reqA None 0 worldFetched = Inr (ThrewPromise 0, worldFetched)
   \<and> (\<exists>st'. fetch [''b'', ''a''] reqA None 0 worldTags = Inr (ThrewPromise 0, st')
         \<and> transportLog st' = [(reqA, None)])"
proof -
  have k: "tagsKnown [''b'', ''a''] worldTags" by code_simp
  have n: "findFetchItem [''b'', ''a''] reqA None worldTags = Inr None" by code_simp
  have z: "nextRef worldTags = 0" "transportLog worldTags = []" by code_simp+
  have f1: "findFetchItem [''b'', ''a''] reqA None worldFailed = Inr (Some 0)" by code_simp
  have o1: "hasOutcome (heap worldFailed 0) (Failed (JStr ''TypeError: Failed to fetch''))"
    by code_simp
  have e1: "neqNull (JStr ''TypeError: Failed to fetch'')" by code_simp
  have f2: "findFetchItem [''b'', ''a''] reqA None worldOk = Inr (Some 0)" by code_simp
  have o2: "hasOutcome (heap worldOk 0) (Succeeded (JObj [(''id'', JNum 7)]))" by code_simp
  have e2: "neqNull (JObj [(''id'', JNum 7)])" by code_simp
  have f3: "findFetchItem [''b'', ''a''] reqA None worldFetched = Inr (Some 0)" by code_simp
  have o3: "hasOutcome (heap worldFetched 0) Unresolved" by code_simp
  from f1 o1 e1
    fetch_priority_order [of "[''b'', ''a'']" worldFailed reqA None 0
      "JStr ''TypeError: Failed to fetch''" 0]
  have c1: "fetch [''b'', ''a''] reqA None 0 worldFailed
      = Inr (ThrewError (JStr ''TypeError: Failed to fetch''), worldFailed)"
    by blast
  from f2 o2 e2
    fetch_priority_order [where ts = "[''b'', ''a'']" and st = worldOk and inp = reqA and op = None
      and i = 0 and v = "JObj [(''id'', JNum 7)]" and l = 0]
  have c2: "fetch [''b'', ''a''] reqA None 0 worldOk = Inr (Returned (JObj [(''id'', JNum 7)]), worldOk)"
    by blast
  from f3 o3
    fetch_priority_order [where ts = "[''b'', ''a'']" and st = worldFetched and inp = reqA
      and op = None and i = 0 and l = 0]
  have c3: "fetch [''b'', ''a''] reqA None 0 worldFetched = Inr (ThrewPromise 0, worldFetched)"
    by blast
  from k n
    fetch_priority_order [where ts = "[''b'', ''a'']" and st = worldTags and inp = reqA
      and op = None and l = 0]
  have c4: "\<exists>st'. fetch [''b'', ''a''] reqA None 0 worldTags = Inr (ThrewPromise (nextRef worldTags), st')
         \<and> transportLog st' = transportLog worldTags @ [(reqA, None)]"
    by blast
  from c1 c2 c3 c4 z show ?thesis by simp
qed

text \<open>
  Claim C1 as stated fails where the stored value is \<open>null\<close>: the item of the first
  world is found, is not expired and its outcome is succeeded with the value \<open>null\<close>, and
  the synchronous lookup throws the item's promise instead of returning the value. In
  the second world the outcome is failed with the error \<open>null\<close>, and the lookup throws
  the promise instead of the error.
\<close>

theorem fetch_succeeded_not_returned_counterexample:
  "findFetchItem [''a'', ''b''] reqA None worldNull = Inr (Some 0)
   \<and> \<not> isExpired (heap worldNull 0)
   \<and> hasOutcome (heap worldNull 0) (Succeeded JNull)
   \<and> map_sum id fst (fetch [''a'', ''b''] reqA None 0 worldNull) = Inr (ThrewPromise 0)
   \<and> map_sum id fst (fetch [''a'', ''b''] reqA None 0 worldNull) \<noteq> Inr (Returned JNull)
   \<and> findFetchItem [''b'', ''a''] reqA None worldRejectedNull = Inr (Some 0)
   \<and> \<not> isExpired (heap worldRejectedNull 0)
   \<and> hasOutcome (heap worldRejectedNull 0) (Failed JNull)
   \<and> map_sum id fst (fetch [''b'', ''a''] reqA None 0 worldRejectedNull) = Inr (ThrewPromise 0)
   \<and> map_sum id fst (fetch [''b'', ''a''] reqA None 0 worldRejectedNull) \<noteq> Inr (ThrewError JNull)"
  by code_simp

lemma decode_Inl_iff:
  "decode r = Inl e \<longleftrightarrow>
     r = Inl e
     \<or> (\<exists>resp. r = Inr resp \<and>
           (if includes_str (case contentType resp of None \<Rightarrow> [] | Some c \<Rightarrow> c) ''application/json''
            then jsonBody resp = Inl e else textBody resp = Inl e))"
  by (cases r) (auto simp: decode_def split: option.splits sum.splits)

lemma expired_not_found: "expired (heap st j) \<Longrightarrow> findFetchItem ts inp op st \<noteq> Inr (Some j)"
  using findFetch_Some [of "ByRequest inp op" ts st j] by (auto simp: findFetchItem_def)

section \<open>Failures\<close>

text \<open>
  Claim C6, as amended. An error is raised when the transport rejects, or when
  \<open>json()\<close> or \<open>text()\<close>, whichever the content type selects, throws. Whatever is
  raised for an unresolved item is stored in its \<open>error\<close> field and the item's promise
  is settled by fulfilment; the transport is not called again. If the error is not
  \<open>null\<close> or \<open>undefined\<close>, every lookup that finds the item afterwards replays it: the
  synchronous lookup throws it, however often it is repeated, and the promise of the
  asynchronous lookup is rejected with it, the world staying as it is (no new item, no
  new transport call). An expired item is never found.
\<close>

theorem error_captured_and_replayed:
  assumes "hasOutcome (heap st i) Unresolved" and "decode r = Inl e"
  shows "(r = Inl e
          \<or> (\<exists>resp. r = Inr resp \<and>
                (if includes_str (case contentType resp of None \<Rightarrow> [] | Some c \<Rightarrow> c) ''application/json''
                 then jsonBody resp = Inl e else textBody resp = Inl e)))
     \<and> hasOutcome (heap (finishFetch i r st) i) (Failed e)
     \<and> transportLog (finishFetch i r st) = transportLog st
     \<and> nextRef (finishFetch i r st) = nextRef st
     \<and> (neqNull e \<and> findFetchItem ts inp op (finishFetch i r st) = Inr (Some i) \<longrightarrow>
          fetch ts inp op l (finishFetch i r st) = Inr (ThrewError e, finishFetch i r st)
          \<and> fetchRepeatedly n ts inp op l (finishFetch i r st)
              = Inr (replicate n (ThrewError e), finishFetch i r st)
          \<and> nonReactFetch ts inp op l (finishFetch i r st) = Inr (i, finishFetch i r st)
          \<and> getPromise (heap (finishFetch i r st) i) = Rejected e)
     \<and> (expired (heap (finishFetch i r st) i) \<longrightarrow>
          findFetchItem ts inp op (finishFetch i r st) \<noteq> Inr (Some i))"
proof -
  let ?st1 = "finishFetch i r st"
  have raised: "r = Inl e
          \<or> (\<exists>resp. r = Inr resp \<and>
                (if includes_str (case contentType resp of None \<Rightarrow> [] | Some c \<Rightarrow> c) ''application/json''
                 then jsonBody resp = Inl e else textBody resp = Inl e))"
    using assms(2) by (simp add: decode_Inl_iff)
  have out: "hasOutcome (heap ?st1 i) (Failed e)"
    using finish_outcome [OF assms(1), of r] assms(2)
    by (simp add: finishFetch_simps outcomeOf_def)
  then have fields: "fetchSettled (heap ?st1 i)" "error (heap ?st1 i) = e"
    by simp_all
  have replay: "fetch ts inp op l ?st1 = Inr (ThrewError e, ?st1)
          \<and> fetchRepeatedly n ts inp op l ?st1 = Inr (replicate n (ThrewError e), ?st1)
          \<and> nonReactFetch ts inp op l ?st1 = Inr (i, ?st1)
          \<and> getPromise (heap ?st1 i) = Rejected e"
    if ne: "neqNull e" and found: "findFetchItem ts inp op ?st1 = Inr (Some i)"
  proof -
    have f: "fetch ts inp op l ?st1 = Inr (ThrewError e, ?st1)"
      using ne fields by (simp add: fetch_found [OF found])
    have g: "getPromise (heap ?st1 i) = Rejected e"
      using ne fields by (simp add: getPromise_def)
    from f g fetchRepeatedly_same [OF f] nonReactFetch_found [OF found] show ?thesis by simp
  qed
  from raised out replay expired_not_found [of ?st1 i ts inp op] show ?thesis
    by (simp add: finishFetch_simps)
qed

text \<open>
  The transport fails with a network error for the item of the example world, and
  separately the response there is not valid JSON.
\<close>

theorem error_captured_and_replayed_witness:
  "hasOutcome (heap worldFetched 0) Unresolved
   \<and> decode networkError = Inl (JStr ''TypeError: Failed to fetch'')
   \<and> neqNull (JStr ''TypeError: Failed to fetch'')
   \<and> findFetchItem [''b''] reqA None (finishFetch 0 networkError worldFetched) = Inr (Some 0)
   \<and> fetchRepeatedly 2 [''b''] reqA None 0 (finishFetch 0 networkError worldFetched)
       = Inr (replicate 2 (ThrewError (JStr ''TypeError: Failed to fetch'')),
              finishFetch 0 networkError worldFetched)
   \<and> getPromise (heap (finishFetch 0 networkError worldFetched) 0)
       = Rejected (JStr ''TypeError: Failed to fetch'')
   \<and> decode badJson = Inl (JStr ''SyntaxError: Unexpected token < in JSON'')
   \<and> hasOutcome (heap (finishFetch 0 badJson worldFetched) 0)
         (Failed (JStr ''SyntaxError: Unexpected token < in JSON''))
   \<and> expired (heap (finishFetch 0 networkError (expireItem 0 worldFetched)) 0)
   \<and> findFetchItem [''b''] reqA None (finishFetch 0 networkError (expireItem 0 worldFetched))
        \<noteq> Inr (Some 0)"
proof -
  have h1: "hasOutcome (heap worldFetched 0) Unresolved" by code_simp
  have h1': "hasOutcome (heap (expireItem 0 worldFetched) 0) Unresolved" by code_simp
  have h2: "decode networkError = Inl (JStr ''TypeError: Failed to fetch'')" by code_simp
  have h3: "neqNull (JStr ''TypeError: Failed to fetch'')" by code_simp
  have h4: "findFetchItem [''b''] reqA None (finishFetch 0 networkError worldFetched) = Inr (Some 0)"
    by code_simp
  have h5: "decode badJson = Inl (JStr ''SyntaxError: Unexpected token < in JSON'')" by code_simp
  have h6: "expired (heap (finishFetch 0 networkError (expireItem 0 worldFetched)) 0)" by code_simp
  from h1 h2 h3 h4 h5 h6
    error_captured_and_replayed [OF h1 h2, where ts = "[''b'']" and inp = reqA and op = None
      and l = 0 and n = 2]
    error_captured_and_replayed [OF h1 h5, where ts = "[''b'']" and inp = reqA and op = None
      and l = 0 and n = 2]
    error_captured_and_replayed [OF h1' h2, where ts = "[''b'']" and inp = reqA and op = None
      and l = 0 and n = 2]
  show ?thesis by simp
qed

text \<open>
  Claim C6 as stated fails where the raised value is \<open>null\<close>: the transport rejects
  with \<open>null\<close>, the item's outcome is failed, and the lookups that find it do not replay
  the error: the synchronous lookup throws the promise and the promise of the
  asynchronous lookup is fulfilled with \<open>undefined\<close>.
\<close>

theorem null_error_not_replayed_counterexample:
  "decode rejectedNull = Inl JNull
   \<and> hasOutcome (heap worldRejectedNull 0) (Failed JNull)
   \<and> findFetchItem [''a'', ''b''] reqA None worldRejectedNull = Inr (Some 0)
   \<and> map_sum id fst (fetch [''a'', ''b''] reqA None 0 worldRejectedNull) = Inr (ThrewPromise 0)
   \<and> map_sum id fst (fetch [''a'', ''b''] reqA None 0 worldRejectedNull) \<noteq> Inr (ThrewError JNull)
   \<and> map_sum id fst (nonReactFetch [''a'', ''b''] reqA None 0 worldRejectedNull) = Inr 0
   \<and> getPromise (heap worldRejectedNull 0) = Fulfilled JUndefined
   \<and> getPromise (heap worldRejectedNull 0) \<noteq> Rejected JNull"
  by code_simp

lemma find_unique:
  "r \<in> set xs \<Longrightarrow> P r \<Longrightarrow> (\<forall>x \<in> set xs. x \<noteq> r \<longrightarrow> \<not> P x) \<Longrightarrow> find P xs = Some r"
proof (induction xs)
  case Nil
  then show ?case by simp
next
  case (Cons a xs)
  show ?case
  proof (cases "a = r")
    case True
    with Cons.prems(2) show ?thesis by simp
  next
    case False
    with Cons.prems have "r \<in> set xs" and "\<not> P a" and "\<forall>x \<in> set xs. x \<noteq> r \<longrightarrow> \<not> P x"
      by auto
    with Cons.IH Cons.prems(2) show ?thesis by simp
  qed
qed

lemma tagsKnown_subset: "tagsKnown ts st \<Longrightarrow> set ts' \<subseteq> set ts \<Longrightarrow> tagsKnown ts' st"
  by (auto simp: tagsKnown_def list_all_iff)

lemma entriesOf_created:
  assumes "x \<in> set (entriesOf ts' (created ts inp op l st))" and "x \<noteq> nextRef st"
  shows "x \<in> set (entriesOf ts' st)"
proof -
  from assms(1) obtain tag items where tag: "tag \<in> set ts'"
    and items: "fetchCache (created ts inp op l st) tag = Some items" and x: "x \<in> set items"
    by (auto simp: set_entriesOf)
  from items obtain items0 where "fetchCache st tag = Some items0"
    and "items = items0 @ replicate (count_list ts tag) (nextRef st)"
    by (auto simp: created_simps)
  with x assms(2) tag show ?thesis
    by (auto simp: set_entriesOf)
qed

lemma live_created_old:
  "x \<noteq> nextRef st \<Longrightarrow> live q (created ts inp op l st) x = live q st x"
  by (simp add: live_def created_simps)

lemma miss_no_live:
  assumes "tagsKnown ts st" and "findFetchItem ts inp op st = Inr None"
    and "set ts' \<subseteq> set ts" and "x \<in> set (entriesOf ts' st)"
  shows "\<not> live (ByRequest inp op) st x"
proof -
  from assms(1,2) have "find (live (ByRequest inp op) st) (entriesOf ts st) = None"
    by (simp add: findFetchItem_def findFetch_find)
  moreover from assms(3,4) have "x \<in> set (entriesOf ts st)"
    by (auto simp: set_entriesOf)
  ultimately show ?thesis by (auto simp: find_None_iff)
qed

lemma miss_no_live_query:
  assumes "tagsKnown ts st" and "findFetch q ts st = Inr None"
    and "set ts' \<subseteq> set ts" and "x \<in> set (entriesOf ts' st)"
  shows "\<not> live q st x"
proof -
  from assms(1,2) have "find (live q st) (entriesOf ts st) = None"
    by (simp add: findFetch_find)
  moreover from assms(3,4) have "x \<in> set (entriesOf ts st)"
    by (auto simp: set_entriesOf)
  ultimately show ?thesis by (auto simp: find_None_iff)
qed

lemma urlEqual_urlOf: "urlEqual item u = (urlOf (input item) = u)"
  by (simp add: urlEqual_def urlOf_def split: requestInfo.splits)

lemma uriIsInCache_found:
  "findFetchURL ts u st = Inr (Some j) \<Longrightarrow> uriIsInCache ts u st = Inr True"
  by (simp add: uriIsInCache_def)

lemma uriIsInCache_not_found:
  "findFetchURL ts u st = Inr None \<Longrightarrow> uriIsInCache ts u st = Inr False"
  by (simp add: uriIsInCache_def)

section \<open>Registration under tags\<close>

text \<open>
  Claim C5. A lookup, synchronous or asynchronous, that finds nothing allocates one
  item and pushes its address onto the array of every tag of the caller. A lookup for
  the same request scoped to any non-empty selection of those tags, one tag alone or
  several, then finds that item. So does the lookup by URL: under any such selection
  \<open>findFetchURL\<close> for the URL of the request finds an unexpired item with that URL and
  \<open>uriIsInCache\<close> is true, and where the caller's tags held no unexpired item with that
  URL before, the item found is the new one. The arrays share the item: once it is
  expired, neither kind of lookup finds it any more.
\<close>

theorem created_entry_reachable_from_each_tag:
  assumes "tagsKnown ts st" and "findFetchItem ts inp op st = Inr None"
    and "ts' \<noteq> []" and "set ts' \<subseteq> set ts"
  shows "fetch ts inp op l st = Inr (ThrewPromise (nextRef st), created ts inp op l st)
     \<and> nonReactFetch ts inp op l st = Inr (nextRef st, created ts inp op l st)
     \<and> nextRef (created ts inp op l st) = Suc (nextRef st)
     \<and> (\<forall>tag \<in> set ts. \<exists>items.
           fetchCache (created ts inp op l st) tag = Some items \<and> nextRef st \<in> set items)
     \<and> findFetchItem ts' inp op (created ts inp op l st) = Inr (Some (nextRef st))
     \<and> findFetchItem ts' inp op (expireItem (nextRef st) (created ts inp op l st)) = Inr None
     \<and> (\<exists>j. findFetchURL ts' (urlOf inp) (created ts inp op l st) = Inr (Some j)
            \<and> urlEqual (heap (created ts inp op l st) j) (urlOf inp)
            \<and> \<not> isExpired (heap (created ts inp op l st) j))
     \<and> uriIsInCache ts' (urlOf inp) (created ts inp op l st) = Inr True
     \<and> (findFetchURL ts (urlOf inp) st = Inr None \<longrightarrow>
          findFetchURL ts' (urlOf inp) (created ts inp op l st) = Inr (Some (nextRef st))
          \<and> findFetchURL ts' (urlOf inp) (expireItem (nextRef st) (created ts inp op l st))
              = Inr None
          \<and> uriIsInCache ts' (urlOf inp) (expireItem (nextRef st) (created ts inp op l st))
              = Inr False)"
proof -
  let ?q = "ByRequest inp op"
  let ?u = "ByURL (urlOf inp)"
  let ?r = "nextRef st"
  let ?st1 = "created ts inp op l st"
  have known: "tagsKnown ts' ?st1"
    using assms(1,4) by (simp add: tagsKnown_created tagsKnown_subset)
  have known': "tagsKnown ts' (expireItem ?r ?st1)"
    using known by (simp add: tagsKnown_expireItem)
  have reg: "\<forall>tag \<in> set ts. \<exists>items. fetchCache ?st1 tag = Some items \<and> ?r \<in> set items"
    using assms(1) by (simp add: created_registered)
  from assms(3) obtain tag where tag: "tag \<in> set ts'" by (cases ts') auto
  with assms(4) have "tag \<in> set ts" by auto
  with reg obtain items where "fetchCache ?st1 tag = Some items" and "?r \<in> set items"
    by blast
  with tag have mem: "?r \<in> set (entriesOf ts' ?st1)"
    unfolding set_entriesOf by blast
  have new: "live ?q ?st1 ?r"
    by (simp add: live_def created_simps argsEqual_def deepEqual_def isExpired_def)
  have old: "\<not> live ?q ?st1 x" if "x \<in> set (entriesOf ts' ?st1)" and "x \<noteq> ?r" for x
  proof -
    from that have "x \<in> set (entriesOf ts' st)" by (rule entriesOf_created)
    then have "\<not> live ?q st x" by (rule miss_no_live [OF assms(1,2,4)])
    with that(2) show ?thesis by (simp add: live_created_old)
  qed
  have "find (live ?q ?st1) (entriesOf ts' ?st1) = Some ?r"
    using mem new old by (intro find_unique) blast+
  then have found: "findFetchItem ts' inp op ?st1 = Inr (Some ?r)"
    using known by (simp add: findFetchItem_def findFetch_find)
  have "\<not> live ?q (expireItem ?r ?st1) x" if "x \<in> set (entriesOf ts' ?st1)" for x
    using old [OF that]
    by (cases "x = ?r") (simp_all add: live_def expireItem_simps isExpired_def setExpired_simps)
  then have "find (live ?q (expireItem ?r ?st1)) (entriesOf ts' (expireItem ?r ?st1)) = None"
    by (simp add: find_None_iff entriesOf_expireItem)
  then have gone: "findFetchItem ts' inp op (expireItem ?r ?st1) = Inr None"
    using known by (simp add: findFetchItem_def findFetch_find tagsKnown_expireItem)
  have newu: "live ?u ?st1 ?r"
    by (simp add: live_def created_simps urlEqual_urlOf isExpired_def)
  with mem have "find (live ?u ?st1) (entriesOf ts' ?st1) \<noteq> None"
    by (auto simp: find_None_iff)
  then obtain j where j: "find (live ?u ?st1) (entriesOf ts' ?st1) = Some j" by auto
  then have "live ?u ?st1 j" by (auto simp: find_Some_iff)
  then have jprops: "urlEqual (heap ?st1 j) (urlOf inp)" "\<not> isExpired (heap ?st1 j)"
    by (simp_all add: live_def)
  have foundu: "findFetchURL ts' (urlOf inp) ?st1 = Inr (Some j)"
    unfolding findFetchURL_def findFetch_find [OF known] using j by simp
  have byurl: "\<exists>j. findFetchURL ts' (urlOf inp) ?st1 = Inr (Some j)
            \<and> urlEqual (heap ?st1 j) (urlOf inp) \<and> \<not> isExpired (heap ?st1 j)"
    using foundu jprops by blast
  have cached: "uriIsInCache ts' (urlOf inp) ?st1 = Inr True"
    using foundu by (rule uriIsInCache_found)
  have fresh: "findFetchURL ts' (urlOf inp) ?st1 = Inr (Some ?r)
          \<and> findFetchURL ts' (urlOf inp) (expireItem ?r ?st1) = Inr None
          \<and> uriIsInCache ts' (urlOf inp) (expireItem ?r ?st1) = Inr False"
    if nourl: "findFetchURL ts (urlOf inp) st = Inr None"
  proof -
    from nourl have nourl': "findFetch ?u ts st = Inr None"
      by (simp add: findFetchURL_def)
    have oldu: "\<not> live ?u ?st1 x" if "x \<in> set (entriesOf ts' ?st1)" and "x \<noteq> ?r" for x
    proof -
      from that have "x \<in> set (entriesOf ts' st)" by (rule entriesOf_created)
      then have "\<not> live ?u st x" by (rule miss_no_live_query [OF assms(1) nourl' assms(4)])
      with that(2) show ?thesis by (simp add: live_created_old)
    qed
    have "find (live ?u ?st1) (entriesOf ts' ?st1) = Some ?r"
      using mem newu oldu by (intro find_unique) blast+
    then have a: "findFetchURL ts' (urlOf inp) ?st1 = Inr (Some ?r)"
      unfolding findFetchURL_def findFetch_find [OF known] by simp
    have "\<not> live ?u (expireItem ?r ?st1) x" if "x \<in> set (entriesOf ts' ?st1)" for x
      using oldu [OF that]
      by (cases "x = ?r") (simp_all add: live_def expireItem_simps isExpired_def setExpired_simps)
    then have "find (live ?u (expireItem ?r ?st1)) (entriesOf ts' (expireItem ?r ?st1)) = None"
      by (simp add: find_None_iff entriesOf_expireItem)
    then have b: "findFetchURL ts' (urlOf inp) (expireItem ?r ?st1) = Inr None"
      unfolding findFetchURL_def findFetch_find [OF known'] by simp
    from a b uriIsInCache_not_found [OF b] show ?thesis by simp
  qed
  have "nextRef ?st1 = Suc ?r" by (simp add: created_simps)
  with fetch_miss [OF assms(1,2), of l] nonReactFetch_miss [OF assms(1,2), of l] reg found gone
    byurl cached fresh
  show ?thesis by blast
qed

text \<open>
  An item created under the tags \<open>a\<close> and \<open>b\<close> is found through \<open>a\<close> alone, through
  \<open>b\<close> alone and through both, by request and by URL.
\<close>

theorem created_entry_reachable_witness:
  "tagsKnown [''a'', ''b''] worldTags
   \<and> findFetchItem [''a'', ''b''] reqA None worldTags = Inr None
   \<and> findFetchURL [''a'', ''b''] ''/a'' worldTags = Inr None
   \<and> findFetchItem [''a''] reqA None (created [''a'', ''b''] reqA None 0 worldTags) = Inr (Some 0)
   \<and> findFetchItem [''b''] reqA None (created [''a'', ''b''] reqA None 0 worldTags) = Inr (Some 0)
   \<and> findFetchItem [''b'', ''a''] reqA None (created [''a'', ''b''] reqA None 0 worldTags)
        = Inr (Some 0)
   \<and> findFetchURL [''a''] ''/a'' (created [''a'', ''b''] reqA None 0 worldTags) = Inr (Some 0)
   \<and> findFetchURL [''b''] ''/a'' (created [''a'', ''b''] reqA None 0 worldTags) = Inr (Some 0)
   \<and> uriIsInCache [''a''] ''/a'' (created [''a'', ''b''] reqA None 0 worldTags) = Inr True
   \<and> uriIsInCache [''b''] ''/a'' (created [''a'', ''b''] reqA None 0 worldTags) = Inr True
   \<and> uriIsInCache [''b'', ''a''] ''/a'' (created [''a'', ''b''] reqA None 0 worldTags) = Inr True
   \<and> uriIsInCache [''b''] ''/a'' (expireItem 0 (created [''a'', ''b''] reqA None 0 worldTags))
        = Inr False
   \<and> fetch [''a'', ''b''] reqA None 0 worldTags
        = Inr (ThrewPromise 0, created [''a'', ''b''] reqA None 0 worldTags)"
proof -
  have k: "tagsKnown [''a'', ''b''] worldTags" by code_simp
  have n: "findFetchItem [''a'', ''b''] reqA None worldTags = Inr None" by code_simp
  have z: "nextRef worldTags = 0" by code_simp
  have u: "urlOf reqA = ''/a''" by code_simp
  have nu: "findFetchURL [''a'', ''b''] ''/a'' worldTags = Inr None" by code_simp
  from k n z u nu
    created_entry_reachable_from_each_tag [OF k n, where ts' = "[''a'']" and l = 0]
    created_entry_reachable_from_each_tag [OF k n, where ts' = "[''b'']" and l = 0]
    created_entry_reachable_from_each_tag [OF k n, where ts' = "[''b'', ''a'']" and l = 0]
  show ?thesis by simp
qed

lemma forceExpire_found:
  assumes "tagsKnown ts st" and "i \<in> set (entriesOf ts st)" and "live q st i"
  shows "forceExpire q ts st = Inr (cleaned ts (emitElementsExpired ts (expireAll q ts st)))"
proof -
  from assms(2,3) have "find (live q st) (entriesOf ts st) \<noteq> None"
    by (auto simp: find_None_iff)
  then obtain y where "find (live q st) (entriesOf ts st) = Some y" by auto
  with assms(1) show ?thesis by (simp add: forceExpire_eq)
qed

lemma heap_after_forceExpire:
  "heap (cleaned ts (emitElementsExpired ts (expireAll q ts st))) j =
     (if j \<in> set (entriesOf ts st) \<and> matches q (heap st j) then setExpired (heap st j)
      else heap st j)"
  by (simp add: cleaned_def emitElementsExpired_def expireAll_def)

lemma not_live_after_forceExpire:
  "\<not> live q st j \<Longrightarrow> \<not> live q (cleaned ts (emitElementsExpired ts (expireAll q ts st))) j"
  by (auto simp: live_def heap_after_forceExpire isExpired_def setExpired_simps matches_setExpired)

lemma entriesOf_cleaned_live:
  "j \<in> set (entriesOf ts (cleaned ts st)) \<Longrightarrow> \<not> expired (heap st j)"
proof -
  assume "j \<in> set (entriesOf ts (cleaned ts st))"
  then obtain tag items where "tag \<in> set ts"
    and "fetchCache (cleaned ts st) tag = Some items" and "j \<in> set items"
    by (auto simp: set_entriesOf)
  then show ?thesis
    by (auto simp: cleaned_def isExpired_def)
qed

lemma fetchCache_other_tag:
  "b \<notin> set ts \<Longrightarrow>
     fetchCache (cleaned ts (emitElementsExpired ts (expireAll q ts st))) b = fetchCache st b"
  by (simp add: cleaned_def emitElementsExpired_def expireAll_def)

lemma entriesOf_single: "fetchCache st b = Some items \<Longrightarrow> entriesOf [b] st = items"
  by (simp add: entriesOf_def)

section \<open>Expiry across tags\<close>

text \<open>
  Claim C3, as amended. An unexpired item matching the request is stored under a tag
  of the caller and also under a tag \<open>b\<close> that is not among the caller's.
  \<open>forceExpireRequest\<close> through the caller's tags sets the one \<open>expired\<close> flag of the
  item: no lookup, under whatever tags, finds it any more, \<open>b\<close> included. The transport
  is not called. The item is dropped from the arrays of the caller's tags, while the
  array of \<open>b\<close> still holds it until \<open>cleanCache\<close> runs over \<open>b\<close>. If \<open>b\<close> holds no other
  unexpired item matching the request, the next lookup under \<open>b\<close> finds nothing, creates
  a new item and calls the transport again.
\<close>

theorem force_expire_hides_entry_under_every_tag:
  assumes "tagsKnown tsA st"
    and "i \<in> set (entriesOf tsA st)"
    and "argsEqual (heap st i) inp op" and "\<not> expired (heap st i)"
    and "b \<notin> set tsA" and "fetchCache st b = Some items" and "i \<in> set items"
  shows "\<exists>st'. forceExpireRequest tsA inp op st = Inr st'
     \<and> expired (heap st' i)
     \<and> (\<forall>ts'. findFetchItem ts' inp op st' \<noteq> Inr (Some i))
     \<and> i \<notin> set (entriesOf tsA st')
     \<and> fetchCache st' b = Some items
     \<and> transportLog st' = transportLog st
     \<and> (\<exists>st''. cleanCache [b] st' = Inr st'' \<and> i \<notin> set (entriesOf [b] st''))
     \<and> ((\<forall>j \<in> set items. j \<noteq> i \<longrightarrow> \<not> live (ByRequest inp op) st j) \<longrightarrow>
          findFetchItem [b] inp op st' = Inr None
          \<and> (\<exists>st''. fetch [b] inp op l st' = Inr (ThrewPromise (nextRef st'), st'')
                \<and> transportLog st'' = transportLog st' @ [(inp, op)]))"
proof -
  let ?q = "ByRequest inp op"
  let ?st' = "cleaned tsA (emitElementsExpired tsA (expireAll ?q tsA st))"
  have lv: "live ?q st i"
    using assms(3,4) by (simp add: live_def isExpired_def)
  have run: "forceExpireRequest tsA inp op st = Inr ?st'"
    using forceExpire_found [OF assms(1,2) lv] by (simp add: forceExpireRequest_def)
  have ex: "expired (heap ?st' i)"
    using assms(2,3) by (simp add: heap_after_forceExpire setExpired_simps)
  have hidden: "\<forall>ts'. findFetchItem ts' inp op ?st' \<noteq> Inr (Some i)"
    using ex by (simp add: expired_not_found)
  have dropped: "i \<notin> set (entriesOf tsA ?st')"
  proof
    assume "i \<in> set (entriesOf tsA ?st')"
    then have "\<not> expired (heap (emitElementsExpired tsA (expireAll ?q tsA st)) i)"
      by (rule entriesOf_cleaned_live)
    with ex show False by (simp add: cleaned_def)
  qed
  have kept: "fetchCache ?st' b = Some items"
    using assms(5,6) by (simp add: fetchCache_other_tag)
  have log: "transportLog ?st' = transportLog st"
    by (simp add: cleaned_def emitElementsExpired_def expireAll_def)
  have knownb: "tagsKnown [b] ?st'"
    using kept by (simp add: tagsKnown_def)
  have clean: "\<exists>st''. cleanCache [b] ?st' = Inr st'' \<and> i \<notin> set (entriesOf [b] st'')"
  proof -
    have "i \<notin> set (entriesOf [b] (cleaned [b] ?st'))"
      using ex entriesOf_cleaned_live [of i "[b]" ?st'] by auto
    with cleanCache_cleaned [OF knownb] show ?thesis by simp
  qed
  have again: "findFetchItem [b] inp op ?st' = Inr None
          \<and> (\<exists>st''. fetch [b] inp op l ?st' = Inr (ThrewPromise (nextRef ?st'), st'')
                \<and> transportLog st'' = transportLog ?st' @ [(inp, op)])"
    if others: "\<forall>j \<in> set items. j \<noteq> i \<longrightarrow> \<not> live ?q st j"
  proof -
    have "\<not> live ?q ?st' j" if "j \<in> set items" for j
    proof (cases "j = i")
      case True
      with ex show ?thesis by (simp add: live_def isExpired_def)
    next
      case False
      with others that have "\<not> live ?q st j" by simp
      then show ?thesis by (rule not_live_after_forceExpire)
    qed
    then have "find (live ?q ?st') (entriesOf [b] ?st') = None"
      by (simp add: find_None_iff entriesOf_single [OF kept])
    then have none: "findFetchItem [b] inp op ?st' = Inr None"
      unfolding findFetchItem_def findFetch_find [OF knownb] by simp
    from fetch_miss [OF knownb none, of l] none show ?thesis
      by (simp add: created_simps)
  qed
  from run ex hidden dropped kept log clean again show ?thesis by blast
qed

text \<open>
  The item of the example world is stored under \<open>a\<close> and \<open>b\<close> and is expired through
  \<open>a\<close>.
\<close>

theorem force_expire_hides_entry_witness:
  "tagsKnown [''a''] worldFetched
   \<and> 0 \<in> set (entriesOf [''a''] worldFetched)
   \<and> argsEqual (heap worldFetched 0) reqA None \<and> \<not> expired (heap worldFetched 0)
   \<and> ''b'' \<notin> set [''a''] \<and> fetchCache worldFetched ''b'' = Some [0]
   \<and> (\<exists>st'. forceExpireRequest [''a''] reqA None worldFetched = Inr st'
         \<and> expired (heap st' 0)
         \<and> fetchCache st' ''b'' = Some [0]
         \<and> findFetchItem [''b''] reqA None st' = Inr None
         \<and> (\<exists>st''. fetch [''b''] reqA None 0 st' = Inr (ThrewPromise (nextRef st'), st'')
               \<and> transportLog st'' = transportLog st' @ [(reqA, None)]))"
proof -
  have h1: "tagsKnown [''a''] worldFetched" by code_simp
  have h2: "0 \<in> set (entriesOf [''a''] worldFetched)" by code_simp
  have h3: "argsEqual (heap worldFetched 0) reqA None" by code_simp
  have h4: "\<not> expired (heap worldFetched 0)" by code_simp
  have h5: "''b'' \<notin> set [''a'']" by simp
  have h6: "fetchCache worldFetched ''b'' = Some [0]" by code_simp
  have h7: "0 \<in> set [0::nat]" by simp
  from force_expire_hides_entry_under_every_tag [OF h1 h2 h3 h4 h5 h6 h7, of 0]
  obtain st' where "forceExpireRequest [''a''] reqA None worldFetched = Inr st'
         \<and> expired (heap st' 0)
         \<and> fetchCache st' ''b'' = Some [0]
         \<and> findFetchItem [''b''] reqA None st' = Inr None
         \<and> (\<exists>st''. fetch [''b''] reqA None 0 st' = Inr (ThrewPromise (nextRef st'), st'')
               \<and> transportLog st'' = transportLog st' @ [(reqA, None)])"
    by auto
  with h1 h2 h3 h4 h5 h6 show ?thesis by blast
qed

text \<open>
  Claim C3 as stated fails: after the item stored under \<open>a\<close> and \<open>b\<close> has been expired
  through \<open>a\<close>, the array of \<open>b\<close> still holds it, but a lookup scoped to \<open>b\<close> does not
  find it, creates a second item and calls the transport a second time.
\<close>

theorem expired_via_a_invisible_via_b_counterexample:
  "fetchCache worldFetched ''a'' = Some [0] \<and> fetchCache worldFetched ''b'' = Some [0]
   \<and> \<not> isl (forceExpireRequest [''a''] reqA None worldFetched)
   \<and> fetchCache worldExpiredA ''b'' = Some [0]
   \<and> findFetchItem [''a''] reqA None worldExpiredA = Inr None
   \<and> findFetchItem [''b''] reqA None worldExpiredA = Inr None
   \<and> map_sum id fst (fetch [''b''] reqA None 0 worldExpiredA) = Inr (ThrewPromise 1)
   \<and> transportLog worldExpiredA = [(reqA, None)]
   \<and> transportLog (snd (projr (fetch [''b''] reqA None 0 worldExpiredA)))
        = [(reqA, None), (reqA, None)]"
  by code_simp

lemma pushAll_frame:
  "pushAll ts r st = Inr st' \<Longrightarrow>
     heap st' = heap st \<and> nextRef st' = nextRef st \<and> transportLog st' = transportLog st
     \<and> timers st' = timers st \<and> clock st' = clock st \<and> instances st' = instances st"
proof (induction ts arbitrary: st)
  case Nil
  then show ?case by simp
next
  case (Cons tag ts)
  then show ?case by (cases "fetchCache st tag") (auto dest!: Cons.IH)
qed

lemma cleanCache_frame:
  "cleanCache ts st = Inr st' \<Longrightarrow>
     heap st' = heap st \<and> nextRef st' = nextRef st \<and> transportLog st' = transportLog st
     \<and> timers st' = timers st \<and> clock st' = clock st \<and> instances st' = instances st"
proof (induction ts arbitrary: st)
  case Nil
  then show ?case by simp
next
  case (Cons tag ts)
  then show ?case by (cases "fetchCache st tag") (auto dest!: Cons.IH)
qed

lemma hasOutcome_setExpired: "hasOutcome (setExpired item) out = hasOutcome item out"
  by (cases out) (simp_all add: setExpired_simps)

lemma expireWhile_frame:
  "expireWhile q ts m st = Inr st' \<Longrightarrow>
     nextRef st' = nextRef st \<and> transportLog st' = transportLog st
     \<and> timers st' = timers st \<and> clock st' = clock st
     \<and> (\<forall>j. (expired (heap st j) \<longrightarrow> expired (heap st' j))
            \<and> (\<forall>out. hasOutcome (heap st' j) out = hasOutcome (heap st j) out))"
proof (induction q ts m st rule: expireWhile.induct)
  case (1 q ts st)
  then show ?case by simp
next
  case (2 q ts i st)
  from "2.prems" obtain m where m: "findFetch q ts (expireItem i st) = Inr m"
    and rest: "expireWhile q ts m (expireItem i st) = Inr st'"
    by (auto split: sum.splits)
  have one: "(expired (heap st j) \<longrightarrow> expired (heap (expireItem i st) j))
      \<and> (\<forall>out. hasOutcome (heap (expireItem i st) j) out = hasOutcome (heap st j) out)" for j
    by (simp add: expireItem_simps setExpired_simps hasOutcome_setExpired)
  from "2.IH" [OF m rest] one show ?case
    by (simp add: expireItem_simps)
qed

lemma forceExpire_frame:
  assumes "forceExpire q ts st = Inr st'"
  shows "nextRef st' = nextRef st \<and> transportLog st' = transportLog st
     \<and> timers st' = timers st \<and> clock st' = clock st
     \<and> (\<forall>j. (expired (heap st j) \<longrightarrow> expired (heap st' j))
            \<and> (\<forall>out. hasOutcome (heap st' j) out = hasOutcome (heap st j) out))"
proof (cases "findFetch q ts st")
  case (Inl e)
  with assms show ?thesis by (simp add: forceExpire_def)
next
  case (Inr m)
  show ?thesis
  proof (cases "expireWhile q ts m st")
    case (Inl e)
    with Inr assms show ?thesis by (simp add: forceExpire_def)
  next
    case w: (Inr st1)
    with Inr assms have fin: "st' = st1 \<or> cleanCache ts (emitElementsExpired ts st1) = Inr st'"
      by (auto simp: forceExpire_def Let_def split: if_splits)
    then have "heap st' = heap st1 \<and> nextRef st' = nextRef st1
        \<and> transportLog st' = transportLog st1 \<and> timers st' = timers st1 \<and> clock st' = clock st1"
      by (auto dest!: cleanCache_frame simp: emitElementsExpired_def)
    with expireWhile_frame [OF w] show ?thesis by simp
  qed
qed

lemma fetch_frame:
  assumes "fetch ts inp op l st = Inr (sig, st')"
  shows "nextRef st \<le> nextRef st' \<and> (\<forall>j < nextRef st. heap st' j = heap st j)"
proof (cases "findFetchItem ts inp op st")
  case (Inl e)
  with assms show ?thesis by (simp add: fetch_def)
next
  case (Inr m)
  show ?thesis
  proof (cases m)
    case None
    with Inr assms obtain st1 where "pushAll ts (nextRef st) st1 = Inr st'"
      and "st1 = snd (new_FetchCacheItem inp op l st)"
      by (auto simp: fetch_def new_FetchCacheItem_def Let_def split: sum.splits)
    then show ?thesis
      by (auto dest!: pushAll_frame simp: new_FetchCacheItem_def Let_def)
  next
    case (Some i)
    with Inr assms show ?thesis by (simp add: fetch_found)
  qed
qed

lemma nonReactFetch_frame:
  assumes "nonReactFetch ts inp op l st = Inr (r, st')"
  shows "nextRef st \<le> nextRef st' \<and> (\<forall>j < nextRef st. heap st' j = heap st j)"
proof (cases "findFetchItem ts inp op st")
  case (Inl e)
  with assms show ?thesis by (simp add: nonReactFetch_def)
next
  case (Inr m)
  show ?thesis
  proof (cases m)
    case None
    with Inr assms obtain st1 where "pushAll ts (nextRef st) st1 = Inr st'"
      and "st1 = snd (new_FetchCacheItem inp op l st)"
      by (auto simp: nonReactFetch_def new_FetchCacheItem_def Let_def split: sum.splits)
    then show ?thesis
      by (auto dest!: pushAll_frame simp: new_FetchCacheItem_def Let_def)
  next
    case (Some i)
    with Inr assms show ?thesis by (simp add: nonReactFetch_found)
  qed
qed

lemma initTags_frame: "heap (initTags ts st) = heap st \<and> nextRef (initTags ts st) = nextRef st"
  by (induction ts arbitrary: st) (auto split: option.splits if_splits)

lemma clearTags_frame: "heap (clearTags ts st) = heap st \<and> nextRef (clearTags ts st) = nextRef st"
  by (induction ts arbitrary: st) auto

lemma runTimers_expired:
  "expired (runTimers tms now h j) = (expired (h j) \<or> (\<exists>due. (j, due) \<in> set tms \<and> due \<le> now))"
  by (induction tms now h rule: runTimers.induct) auto

lemma runTimers_outcome: "hasOutcome (runTimers tms now h j) out = hasOutcome (h j) out"
proof (induction tms now h rule: runTimers.induct)
  case (1 now h)
  then show ?case by simp
next
  case (2 i due rest now h)
  have "hasOutcome ((h i)\<lparr>expired := True\<rparr>) out = hasOutcome (h i) out"
    by (cases out) simp_all
  with 2 show ?case by simp
qed

lemma generateFetch_finish_expired: "expired (generateFetch_finish r item) = expired item"
  by (simp add: generateFetch_finish_def split: sum.splits)

lemma step_expired:
  assumes "step a st = Inr st'"
  shows "nextRef st \<le> nextRef st'
     \<and> (\<forall>j < nextRef st. (expired (heap st j) \<longrightarrow> expired (heap st' j))
                         \<and> (\<not> expires a \<longrightarrow> expired (heap st' j) = expired (heap st j)))"
proof (cases a)
  case (DoFetch ts inp op l)
  with assms obtain sig where "fetch ts inp op l st = Inr (sig, st')"
    by (auto split: sum.splits)
  from fetch_frame [OF this] show ?thesis by simp
next
  case (DoNonReactFetch ts inp op l)
  with assms obtain r where "nonReactFetch ts inp op l st = Inr (r, st')"
    by (auto split: sum.splits)
  from nonReactFetch_frame [OF this] show ?thesis by simp
next
  case (DoUriIsInCache ts u)
  with assms show ?thesis by (auto split: sum.splits)
next
  case (DoForceExpireURL ts u)
  with assms have "forceExpire (ByURL u) ts st = Inr st'"
    by (simp add: forceExpireURL_def)
  from forceExpire_frame [OF this] DoForceExpireURL show ?thesis by simp
next
  case (DoForceExpireRequest ts inp op)
  with assms have "forceExpire (ByRequest inp op) ts st = Inr st'"
    by (simp add: forceExpireRequest_def)
  from forceExpire_frame [OF this] DoForceExpireRequest show ?thesis by simp
next
  case (DoWipeCache ts)
  with assms show ?thesis
    by (auto simp: wipeCache_def emitElementsExpired_def clearTags_frame)
next
  case (DoNewInstance arg)
  with assms show ?thesis
    by (auto simp: new_FetchSuspense_def Let_def initTags_frame)
next
  case (TransportAnswers i r)
  with assms show ?thesis
    by (auto simp: finishFetch_def generateFetch_finish_expired split: if_splits)
next
  case (TimePasses dt)
  with assms show ?thesis
    by (auto simp: advance_def Let_def runTimers_expired)
qed

lemma run_expired:
  "run acts st = Inr st' \<Longrightarrow> j < nextRef st \<Longrightarrow> expired (heap st j) \<Longrightarrow>
     j < nextRef st' \<and> expired (heap st' j)"
proof (induction acts arbitrary: st)
  case Nil
  then show ?case by simp
next
  case (Cons a acts)
  from Cons.prems(1) obtain st1 where a: "step a st = Inr st1" and rest: "run acts st1 = Inr st'"
    by (auto split: sum.splits)
  from step_expired [OF a] Cons.prems(2,3) have "j < nextRef st1" and "expired (heap st1 j)"
    by auto
  with rest show ?case by (rule Cons.IH)
qed

lemma finishFetch_expireItem:
  "finishFetch i r (expireItem i st) = expireItem i (finishFetch i r st)"
  by (intro world.equality)
     (auto simp: finishFetch_def expireItem_def setExpired_def generateFetch_finish_def
        fun_eq_iff split: sum.splits)

section \<open>The expired flag\<close>

text \<open>
  Claim C7. Along every sequence of operations, transport answers and timer firings,
  an item whose \<open>expired\<close> flag is set keeps it set. A single step sets the flag of an
  existing item only if it is the passing of time (a timer) or one of the two forced
  expiries. \<open>setExpired\<close> sets the flag, changes nothing on an item that is already
  expired, and leaves the outcome fields and the item's promise alone. Expiring an item,
  directly or through \<open>forceExpireURL\<close> or \<open>forceExpireRequest\<close> or by a timer, makes no
  transport call and changes no item's outcome; the transport's answer for an expired
  item is recorded exactly as for an unexpired one.
\<close>

theorem expired_flag_is_monotonic:
  "(run acts st = Inr st' \<and> j < nextRef st \<and> expired (heap st j) \<longrightarrow> expired (heap st' j))
   \<and> (step a st = Inr st' \<and> j < nextRef st \<and> \<not> expired (heap st j) \<and> expired (heap st' j)
        \<longrightarrow> expires a)
   \<and> expired (setExpired item)
   \<and> setExpired (setExpired item) = setExpired item
   \<and> (expired item \<longrightarrow> setExpired item = item)
   \<and> hasOutcome (setExpired item) out = hasOutcome item out
   \<and> getPromise (setExpired item) = getPromise item
   \<and> transportLog (expireItem i st) = transportLog st
   \<and> (forceExpire q ts st = Inr st' \<longrightarrow>
        transportLog st' = transportLog st
        \<and> (\<forall>k. hasOutcome (heap st' k) out = hasOutcome (heap st k) out))
   \<and> hasOutcome (heap (advance dt st) k) out = hasOutcome (heap st k) out
   \<and> finishFetch i r (expireItem i st) = expireItem i (finishFetch i r st)
   \<and> (hasOutcome (heap st i) Unresolved \<longrightarrow>
        hasOutcome (heap (finishFetch i r (expireItem i st)) i) (outcomeOf r))"
proof (intro conjI impI)
  show "expired (heap st' j)" if "run acts st = Inr st' \<and> j < nextRef st \<and> expired (heap st j)"
    using that run_expired [of acts st st' j] by simp
  show "expires a"
    if "step a st = Inr st' \<and> j < nextRef st \<and> \<not> expired (heap st j) \<and> expired (heap st' j)"
    using that step_expired [of a st st'] by auto
  show "expired (setExpired item)" "setExpired (setExpired item) = setExpired item"
    by (simp_all add: setExpired_def)
  show "setExpired item = item" if "expired item"
    using that by (rule setExpired_idem)
  show "hasOutcome (setExpired item) out = hasOutcome item out"
    by (rule hasOutcome_setExpired)
  show "getPromise (setExpired item) = getPromise item"
    by (simp add: getPromise_def setExpired_simps)
  show "transportLog (expireItem i st) = transportLog st"
    by (simp add: expireItem_simps)
  show "transportLog st' = transportLog st" if "forceExpire q ts st = Inr st'"
    using forceExpire_frame [OF that] by simp
  show "\<forall>k. hasOutcome (heap st' k) out = hasOutcome (heap st k) out"
    if "forceExpire q ts st = Inr st'"
    using forceExpire_frame [OF that] by simp
  show "hasOutcome (heap (advance dt st) k) out = hasOutcome (heap st k) out"
    by (simp add: advance_def Let_def runTimers_outcome)
  show "finishFetch i r (expireItem i st) = expireItem i (finishFetch i r st)"
    by (rule finishFetch_expireItem)
  show "hasOutcome (heap (finishFetch i r (expireItem i st)) i) (outcomeOf r)"
    if "hasOutcome (heap st i) Unresolved"
  proof -
    from that have "hasOutcome (setExpired (heap st i)) Unresolved"
      by (simp only: hasOutcome_setExpired)
    then have "hasOutcome (generateFetch_finish r (setExpired (heap st i))) (outcomeOf r)"
      by (rule finish_outcome)
    then show ?thesis by (simp add: finishFetch_simps expireItem_simps)
  qed
qed

text \<open>
  The item of the example world is expired through \<open>a\<close>; after that the transport
  answers, another lookup creates a second item with a lifespan, its timer fires, and
  the cache is expired by URL and wiped: the first item stays expired throughout.
\<close>

theorem expired_flag_is_monotonic_witness:
  "\<not> isl (run someActions worldExpiredA)
   \<and> 0 < nextRef worldExpiredA \<and> expired (heap worldExpiredA 0)
   \<and> expired (heap (projr (run someActions worldExpiredA)) 0)
   \<and> step (DoForceExpireRequest [''a''] reqA None) worldFetched = Inr worldExpiredA
   \<and> 0 < nextRef worldFetched \<and> \<not> expired (heap worldFetched 0)
   \<and> expires (DoForceExpireRequest [''a''] reqA None)
   \<and> setExpired (heap worldExpiredA 0) = heap worldExpiredA 0
   \<and> transportLog worldExpiredA = transportLog worldFetched
   \<and> hasOutcome (heap worldFetched 0) Unresolved
   \<and> hasOutcome (heap (finishFetch 0 jsonOk (expireItem 0 worldFetched)) 0) (outcomeOf jsonOk)"
proof -
  have r: "\<not> isl (run someActions worldExpiredA)" by code_simp
  then have r': "run someActions worldExpiredA = Inr (projr (run someActions worldExpiredA))"
    by simp
  have n: "0 < nextRef worldExpiredA" by code_simp
  have e: "expired (heap worldExpiredA 0)" by code_simp
  have "\<not> isl (forceExpireRequest [''a''] reqA None worldFetched)" by code_simp
  then have f: "forceExpireRequest [''a''] reqA None worldFetched = Inr worldExpiredA"
    by (simp add: worldExpiredA_def)
  then have s: "step (DoForceExpireRequest [''a''] reqA None) worldFetched = Inr worldExpiredA"
    by simp
  from f have f': "forceExpire (ByRequest reqA None) [''a''] worldFetched = Inr worldExpiredA"
    by (simp add: forceExpireRequest_def)
  have n0: "0 < nextRef worldFetched" by code_simp
  have e0: "\<not> expired (heap worldFetched 0)" by code_simp
  have u: "hasOutcome (heap worldFetched 0) Unresolved" by code_simp
  from r' n e
    expired_flag_is_monotonic [where acts = someActions and st = worldExpiredA
      and st' = "projr (run someActions worldExpiredA)" and j = 0 and item = "heap worldExpiredA 0"]
  have c1: "expired (heap (projr (run someActions worldExpiredA)) 0)
      \<and> setExpired (heap worldExpiredA 0) = heap worldExpiredA 0"
    by blast
  from s f' n0 e0 e u
    expired_flag_is_monotonic [where a = "DoForceExpireRequest [''a''] reqA None"
      and st = worldFetched and st' = worldExpiredA and j = 0 and q = "ByRequest reqA None"
      and ts = "[''a'']" and i = 0 and r = jsonOk]
  have c2: "expires (DoForceExpireRequest [''a''] reqA None)
      \<and> transportLog worldExpiredA = transportLog worldFetched
      \<and> hasOutcome (heap (finishFetch 0 jsonOk (expireItem 0 worldFetched)) 0) (outcomeOf jsonOk)"
    by blast
  from r n e s n0 e0 u c1 c2 show ?thesis by blast
qed

lemma forceExpireRequest_exact:
  assumes "tagsKnown ts st"
  shows "\<exists>st'. forceExpireRequest ts inp op st = Inr st'
     \<and> (\<forall>j. expired (heap st' j) =
            (expired (heap st j) \<or> j \<in> set (entriesOf ts st) \<and> argsEqual (heap st j) inp op))"
proof (cases "find (live (ByRequest inp op) st) (entriesOf ts st)")
  case None
  then have "expired (heap st j)"
    if "j \<in> set (entriesOf ts st)" and "argsEqual (heap st j) inp op" for j
    using that by (auto simp: find_None_iff live_def isExpired_def)
  with None assms show ?thesis
    by (auto simp: forceExpireRequest_def forceExpire_eq)
next
  case (Some i)
  with assms have "forceExpireRequest ts inp op st
      = Inr (cleaned ts (emitElementsExpired ts (expireAll (ByRequest inp op) ts st)))"
    by (simp add: forceExpireRequest_def forceExpire_eq)
  then show ?thesis
    by (auto simp: heap_after_forceExpire setExpired_simps)
qed

section \<open>Invalidation by request\<close>

text \<open>
  Claim C2. In the tag-indexed design \<open>forceExpireRequest\<close> expires exactly the
  unexpired items under the caller's tags whose input and options both equal the
  arguments. \<open>forceExpireRequest\<close> of the flat-list design does not: its filter keeps an
  entry only if both its input and its options differ from the arguments. Of the three
  entries, \<open>forceExpireRequest('/a')\<close> should remove the first only; the flat list loses
  all three, the entry for \<open>/b\<close> because its options are equal and the \<open>POST\<close> entry
  because its input is equal, where the tag-indexed design keeps both.
\<close>

theorem forceExpireRequest_flat_removes_partial_matches:
  "fetchCaches worldThree_flat = [0, 1, 2]
   \<and> input_flat (heap_flat worldThree_flat 1) \<noteq> reqA
   \<and> opts_flat (heap_flat worldThree_flat 2) \<noteq> None
   \<and> fetchCaches (forceExpireRequest_flat reqA None worldThree_flat) = []
   \<and> fetchCache worldThree ''x'' = Some [0, 1, 2]
   \<and> fetchCache (projr (forceExpireRequest [''x''] reqA None worldThree)) ''x'' = Some [1, 2]
   \<and> findFetchItem [''x''] reqB None (projr (forceExpireRequest [''x''] reqA None worldThree))
        = Inr (Some 1)
   \<and> findFetchItem [''x''] reqA optsPost (projr (forceExpireRequest [''x''] reqA None worldThree))
        = Inr (Some 2)"
  by code_simp

lemma findFetch_total:
  assumes "tagsKnown ts st"
  shows "findFetchItem ts inp op st = Inr None \<or> (\<exists>i. findFetchItem ts inp op st = Inr (Some i))"
  using findFetch_find [OF assms, of "ByRequest inp op"]
  by (cases "find (live (ByRequest inp op) st) (entriesOf ts st)") (simp_all add: findFetchItem_def)

lemma covered_hit:
  assumes "covered (ByRequest inp op) ts0 st" and "tagsKnown ts st" and "set ts \<inter> set ts0 \<noteq> {}"
  shows "\<exists>i. findFetchItem ts inp op st = Inr (Some i)"
proof -
  from assms(1) obtain i where lv: "live (ByRequest inp op) st i"
    and reg: "\<forall>tag \<in> set ts0. \<exists>items. fetchCache st tag = Some items \<and> i \<in> set items"
    by (auto simp: covered_def)
  from assms(3) obtain tag where "tag \<in> set ts" and "tag \<in> set ts0" by auto
  with reg have "i \<in> set (entriesOf ts st)"
    unfolding set_entriesOf by blast
  with lv have "find (live (ByRequest inp op) st) (entriesOf ts st) \<noteq> None"
    by (auto simp: find_None_iff)
  with findFetch_find [OF assms(2), of "ByRequest inp op"] show ?thesis
    by (auto simp: findFetchItem_def)
qed

lemma lookup_hit_step:
  assumes "findFetchItem ts inp op st = Inr (Some i)"
  shows "step (if sync then DoFetch ts inp op l else DoNonReactFetch ts inp op l) st = Inr st"
  using assms by (simp add: fetch_found nonReactFetch_found)

lemma lookup_miss_step:
  assumes "tagsKnown ts st" and "findFetchItem ts inp op st = Inr None"
  shows "step (if sync then DoFetch ts inp op l else DoNonReactFetch ts inp op l) st
           = Inr (created ts inp op l st)"
  using assms by (simp add: fetch_miss nonReactFetch_miss)

lemma covered_created:
  assumes "tagsKnown ts st"
  shows "covered (ByRequest inp op) ts (created ts inp op l st)"
proof -
  have "live (ByRequest inp op) (created ts inp op l st) (nextRef st)"
    by (simp add: live_def created_simps argsEqual_def deepEqual_def isExpired_def)
  moreover have "\<forall>tag \<in> set ts. \<exists>items.
      fetchCache (created ts inp op l st) tag = Some items \<and> nextRef st \<in> set items"
    using assms by (simp add: created_registered)
  ultimately show ?thesis unfolding covered_def by blast
qed

lemma covered_run:
  assumes "covered (ByRequest inp op) ts0 st"
    and "\<forall>p \<in> set ls. tagsKnown (snd p) st \<and> set (snd p) \<inter> set ts0 \<noteq> {}"
  shows "run (lookups ls inp op l) st = Inr st"
  using assms(2)
proof (induction ls)
  case Nil
  then show ?case by simp
next
  case (Cons p ls)
  obtain sync ts where p: "p = (sync, ts)" by (cases p)
  with Cons.prems have "tagsKnown ts st" and "set ts \<inter> set ts0 \<noteq> {}" by auto
  with assms(1) obtain i where "findFetchItem ts inp op st = Inr (Some i)"
    using covered_hit by blast
  then have "step (if sync then DoFetch ts inp op l else DoNonReactFetch ts inp op l) st = Inr st"
    by (rule lookup_hit_step)
  moreover from Cons have "run (lookups ls inp op l) st = Inr st" by simp
  ultimately show ?case using p by simp
qed

lemma lookups_at_most_one_call:
  assumes "\<forall>p \<in> set ls. tagsKnown (snd p) st"
    and "\<forall>p \<in> set ls. \<forall>p' \<in> set ls. set (snd p) \<inter> set (snd p') \<noteq> {}"
  shows "\<exists>st'. run (lookups ls inp op l) st = Inr st'
     \<and> length (transportLog st') \<le> Suc (length (transportLog st))
     \<and> nextRef st' \<le> Suc (nextRef st)"
  using assms
proof (induction ls)
  case Nil
  then show ?case by simp
next
  case (Cons p ls)
  obtain sync ts where p: "p = (sync, ts)" by (cases p)
  with Cons.prems(1) have known: "tagsKnown ts st" by simp
  let ?a = "if sync then DoFetch ts inp op l else DoNonReactFetch ts inp op l"
  from findFetch_total [OF known, of inp op] show ?case
  proof
    assume miss: "findFetchItem ts inp op st = Inr None"
    let ?st1 = "created ts inp op l st"
    have s: "step ?a st = Inr ?st1"
      using known miss by (rule lookup_miss_step)
    have "\<forall>q \<in> set ls. tagsKnown (snd q) ?st1 \<and> set (snd q) \<inter> set ts \<noteq> {}"
      using Cons.prems p by (auto simp: tagsKnown_created)
    with covered_created [OF known] have "run (lookups ls inp op l) ?st1 = Inr ?st1"
      by (rule covered_run)
    with s p show ?thesis by (simp add: created_simps)
  next
    assume "\<exists>i. findFetchItem ts inp op st = Inr (Some i)"
    then obtain i where "findFetchItem ts inp op st = Inr (Some i)" ..
    then have "step ?a st = Inr st" by (rule lookup_hit_step)
    moreover from Cons have "\<exists>st'. run (lookups ls inp op l) st = Inr st'
       \<and> length (transportLog st') \<le> Suc (length (transportLog st))
       \<and> nextRef st' \<le> Suc (nextRef st)"
      by simp
    ultimately show ?thesis using p by simp
  qed
qed

section \<open>Deduplication\<close>

text \<open>
  Claim C4, as amended. A sequence of synchronous and asynchronous lookups for one
  request and lifespan, under tag sets that intersect one another, runs without error,
  calls the transport at most once and creates at most one item. Whenever an unexpired
  matching item is stored under every tag of some set, a lookup under any tag set that
  intersects it finds an item; a lookup that finds an item changes nothing. After the
  fetch of an unresolved item has completed successfully with the value \<open>v\<close>, without a
  further transport call, every asynchronous lookup that finds the item gets a promise
  fulfilled with \<open>v\<close>, and, if \<open>v\<close> is not \<open>null\<close> or \<open>undefined\<close>, every synchronous
  lookup that finds it returns \<open>v\<close>, however often it is repeated; the world stays as
  it is.
\<close>

theorem lookups_deduplicated:
  "((\<forall>p \<in> set ls. tagsKnown (snd p) st)
      \<and> (\<forall>p \<in> set ls. \<forall>p' \<in> set ls. set (snd p) \<inter> set (snd p') \<noteq> {})
     \<longrightarrow> (\<exists>st'. run (lookups ls inp op l) st = Inr st'
            \<and> length (transportLog st') \<le> Suc (length (transportLog st))
            \<and> nextRef st' \<le> Suc (nextRef st)))
   \<and> (covered (ByRequest inp op) ts0 st \<and> tagsKnown ts st \<and> set ts \<inter> set ts0 \<noteq> {}
        \<longrightarrow> (\<exists>k. findFetchItem ts inp op st = Inr (Some k)))
   \<and> (findFetchItem ts inp op st = Inr (Some i)
        \<longrightarrow> (\<exists>sig. fetch ts inp op l st = Inr (sig, st))
            \<and> nonReactFetch ts inp op l st = Inr (i, st))
   \<and> (hasOutcome (heap st i) Unresolved \<and> decode r = Inr v
        \<and> findFetchItem ts inp op (finishFetch i r st) = Inr (Some i)
        \<longrightarrow> transportLog (finishFetch i r st) = transportLog st
            \<and> nonReactFetch ts inp op l (finishFetch i r st) = Inr (i, finishFetch i r st)
            \<and> getPromise (heap (finishFetch i r st) i) = Fulfilled v
            \<and> (neqNull v \<longrightarrow>
                 fetch ts inp op l (finishFetch i r st) = Inr (Returned v, finishFetch i r st)
                 \<and> fetchRepeatedly n ts inp op l (finishFetch i r st)
                     = Inr (replicate n (Returned v), finishFetch i r st)))"
proof (intro conjI impI)
  show "\<exists>st'. run (lookups ls inp op l) st = Inr st'
            \<and> length (transportLog st') \<le> Suc (length (transportLog st))
            \<and> nextRef st' \<le> Suc (nextRef st)"
    if "(\<forall>p \<in> set ls. tagsKnown (snd p) st)
      \<and> (\<forall>p \<in> set ls. \<forall>p' \<in> set ls. set (snd p) \<inter> set (snd p') \<noteq> {})"
    using that lookups_at_most_one_call [of ls st inp op l] by blast
  show "\<exists>k. findFetchItem ts inp op st = Inr (Some k)"
    if "covered (ByRequest inp op) ts0 st \<and> tagsKnown ts st \<and> set ts \<inter> set ts0 \<noteq> {}"
    using that covered_hit [of inp op ts0 st ts] by blast
  show "\<exists>sig. fetch ts inp op l st = Inr (sig, st)" if "findFetchItem ts inp op st = Inr (Some i)"
    using that by (simp add: fetch_found)
  show "nonReactFetch ts inp op l st = Inr (i, st)" if "findFetchItem ts inp op st = Inr (Some i)"
    using that by (rule nonReactFetch_found)
next
  let ?st1 = "finishFetch i r st"
  assume a: "hasOutcome (heap st i) Unresolved \<and> decode r = Inr v
        \<and> findFetchItem ts inp op ?st1 = Inr (Some i)"
  then have found: "findFetchItem ts inp op ?st1 = Inr (Some i)" by simp
  from a have "hasOutcome (generateFetch_finish r (heap st i)) (outcomeOf r)"
    by (simp add: finish_outcome)
  with a have fields: "fetchSettled (heap ?st1 i)" "error (heap ?st1 i) = JUndefined"
    "response (heap ?st1 i) = v"
    by (simp_all add: finishFetch_simps outcomeOf_def)
  show "transportLog ?st1 = transportLog st"
    by (simp add: finishFetch_simps)
  show "nonReactFetch ts inp op l ?st1 = Inr (i, ?st1)"
    using found by (rule nonReactFetch_found)
  show "getPromise (heap ?st1 i) = Fulfilled v"
    using fields by (simp add: getPromise_def neqNull_def)
  assume ne: "neqNull v"
  show f: "fetch ts inp op l ?st1 = Inr (Returned v, ?st1)"
    using ne fields by (simp add: fetch_found [OF found] neqNull_def)
  show "fetchRepeatedly n ts inp op l ?st1 = Inr (replicate n (Returned v), ?st1)"
    using f by (rule fetchRepeatedly_same)
qed

text \<open>
  Four lookups for \<open>/a\<close> under the tag sets \<open>a b\<close>, \<open>b\<close>, \<open>a\<close> and \<open>b a\<close> call the
  transport once; after the transport has answered with a JSON object, the lookups
  under \<open>b\<close> yield that object.
\<close>

theorem lookups_deduplicated_witness:
  "list_all (\<lambda>p. tagsKnown (snd p) worldTags)
      [(True, [''a'', ''b'']), (False, [''b'']), (True, [''b'', ''a''])]
   \<and> list_all (\<lambda>p. list_all (\<lambda>p'. set (snd p) \<inter> set (snd p') \<noteq> {})
                      [(True, [''a'', ''b'']), (False, [''b'']), (True, [''b'', ''a''])])
      [(True, [''a'', ''b'']), (False, [''b'']), (True, [''b'', ''a''])]
   \<and> (\<exists>st'. run (lookups [(True, [''a'', ''b'']), (False, [''b'']), (True, [''b'', ''a''])]
                 reqA None 0) worldTags = Inr st'
         \<and> length (transportLog st') \<le> Suc (length (transportLog worldTags)))
   \<and> covered (ByRequest reqA None) [''a'', ''b''] worldFetched
   \<and> tagsKnown [''b''] worldFetched
   \<and> findFetchItem [''b''] reqA None worldFetched = Inr (Some 0)
   \<and> nonReactFetch [''b''] reqA None 0 worldFetched = Inr (0, worldFetched)
   \<and> hasOutcome (heap worldFetched 0) Unresolved
   \<and> decode jsonOk = Inr (JObj [(''id'', JNum 7)])
   \<and> neqNull (JObj [(''id'', JNum 7)])
   \<and> findFetchItem [''b''] reqA None (finishFetch 0 jsonOk worldFetched) = Inr (Some 0)
   \<and> fetchRepeatedly 2 [''b''] reqA None 0 (finishFetch 0 jsonOk worldFetched)
        = Inr (replicate 2 (Returned (JObj [(''id'', JNum 7)])), finishFetch 0 jsonOk worldFetched)
   \<and> getPromise (heap (finishFetch 0 jsonOk worldFetched) 0) = Fulfilled (JObj [(''id'', JNum 7)])"
proof -
  let ?ls = "[(True, [''a'', ''b'']), (False, [''b'']), (True, [''b'', ''a''])]"
  have k: "\<forall>p \<in> set ?ls. tagsKnown (snd p) worldTags" by code_simp
  have o: "\<forall>p \<in> set ?ls. \<forall>p' \<in> set ?ls. set (snd p) \<inter> set (snd p') \<noteq> {}" by simp
  have lv: "live (ByRequest reqA None) worldFetched 0" by code_simp
  have reg: "\<forall>tag \<in> set [''a'', ''b'']. \<exists>items.
      fetchCache worldFetched tag = Some items \<and> 0 \<in> set items"
  proof -
    have "fetchCache worldFetched ''a'' = Some [0]" "fetchCache worldFetched ''b'' = Some [0]"
      by code_simp+
    then show ?thesis by simp
  qed
  from lv reg have c: "covered (ByRequest reqA None) [''a'', ''b''] worldFetched"
    unfolding covered_def by blast
  have kb: "tagsKnown [''b''] worldFetched" by code_simp
  have i: "set [''b''] \<inter> set [''a'', ''b''] \<noteq> {}" by simp
  have f: "findFetchItem [''b''] reqA None worldFetched = Inr (Some 0)" by code_simp
  have u: "hasOutcome (heap worldFetched 0) Unresolved" by code_simp
  have d: "decode jsonOk = Inr (JObj [(''id'', JNum 7)])" by code_simp
  have ne: "neqNull (JObj [(''id'', JNum 7)])" by code_simp
  have f1: "findFetchItem [''b''] reqA None (finishFetch 0 jsonOk worldFetched) = Inr (Some 0)"
    by code_simp
  from k o
    lookups_deduplicated [where ls = ?ls and st = worldTags and inp = reqA and op = None and l = 0]
  have c1: "\<exists>st'. run (lookups ?ls reqA None 0) worldTags = Inr st'
         \<and> length (transportLog st') \<le> Suc (length (transportLog worldTags))"
    by blast
  from c kb i f u d ne f1
    lookups_deduplicated [where st = worldFetched and inp = reqA and op = None and l = 0
      and ts = "[''b'']" and ts0 = "[''a'', ''b'']" and i = 0 and r = jsonOk
      and v = "JObj [(''id'', JNum 7)]" and n = 2]
  have c2: "nonReactFetch [''b''] reqA None 0 worldFetched = Inr (0, worldFetched)
      \<and> fetchRepeatedly 2 [''b''] reqA None 0 (finishFetch 0 jsonOk worldFetched)
        = Inr (replicate 2 (Returned (JObj [(''id'', JNum 7)])), finishFetch 0 jsonOk worldFetched)
      \<and> getPromise (heap (finishFetch 0 jsonOk worldFetched) 0) = Fulfilled (JObj [(''id'', JNum 7)])"
    by blast
  from k have k': "list_all (\<lambda>p. tagsKnown (snd p) worldTags) ?ls"
    by (simp only: list_all_iff)
  from o have o': "list_all (\<lambda>p. list_all (\<lambda>p'. set (snd p) \<inter> set (snd p') \<noteq> {}) ?ls) ?ls"
    by (simp only: list_all_iff)
  from k' o' c kb f u d ne f1 c1 c2 show ?thesis by blast
qed

text \<open>
  Claim C4 as stated fails where the value is \<open>null\<close>: after the lookup under \<open>a\<close> and
  \<open>b\<close> has created the item and the transport has answered with the JSON body \<open>null\<close>,
  the one transport call stays the only one, and the asynchronous lookup under \<open>b\<close>
  resolves with \<open>null\<close>, but the synchronous lookup under \<open>b\<close> does not return it.
\<close>

theorem lookup_after_null_success_counterexample:
  "run (lookups [(True, [''a'', ''b''])] reqA None 0) worldTags \<noteq> Inl TypeError
   \<and> decode jsonNull = Inr JNull
   \<and> findFetchItem [''b''] reqA None worldNull = Inr (Some 0)
   \<and> transportLog worldNull = [(reqA, None)]
   \<and> getPromise (heap worldNull (fst (projr (nonReactFetch [''b''] reqA None 0 worldNull))))
        = Fulfilled JNull
   \<and> map_sum id fst (fetch [''b''] reqA None 0 worldNull) \<noteq> Inr (Returned JNull)
   \<and> map_sum id fst (fetch [''b''] reqA None 0 worldNull) = Inr (ThrewPromise 0)
   \<and> transportLog (snd (projr (fetch [''b''] reqA None 0 worldNull))) = [(reqA, None)]"
proof -
  have "\<not> isl (run (lookups [(True, [''a'', ''b''])] reqA None 0) worldTags)" by code_simp
  then have "run (lookups [(True, [''a'', ''b''])] reqA None 0) worldTags \<noteq> Inl TypeError"
    by auto
  moreover have "decode jsonNull = Inr JNull
   \<and> findFetchItem [''b''] reqA None worldNull = Inr (Some 0)
   \<and> transportLog worldNull = [(reqA, None)]
   \<and> getPromise (heap worldNull (fst (projr (nonReactFetch [''b''] reqA None 0 worldNull))))
        = Fulfilled JNull
   \<and> map_sum id fst (fetch [''b''] reqA None 0 worldNull) \<noteq> Inr (Returned JNull)
   \<and> map_sum id fst (fetch [''b''] reqA None 0 worldNull) = Inr (ThrewPromise 0)
   \<and> transportLog (snd (projr (fetch [''b''] reqA None 0 worldNull))) = [(reqA, None)]"
    by code_simp
  ultimately show ?thesis by blast
qed

lemma runTimers_fields:
  "input (runTimers tms now h x) = input (h x) \<and> opts (runTimers tms now h x) = opts (h x)
   \<and> error (runTimers tms now h x) = error (h x)
   \<and> response (runTimers tms now h x) = response (h x)
   \<and> fetchSettled (runTimers tms now h x) = fetchSettled (h x)"
  by (induction tms now h rule: runTimers.induct) auto

lemma runTimers_matches: "matches q (runTimers tms now h x) = matches q (h x)"
  by (cases q) (simp_all add: urlEqual_def argsEqual_def runTimers_fields)

lemma advance_simps:
  "heap (advance dt st) = runTimers (timers st) (clock st + dt) (heap st)"
  "fetchCache (advance dt st) = fetchCache st"
  "nextRef (advance dt st) = nextRef st"
  "transportLog (advance dt st) = transportLog st"
  "instances (advance dt st) = instances st"
  "clock (advance dt st) = clock st + dt"
  by (simp_all add: advance_def Let_def)

lemma entriesOf_advance: "entriesOf ts (advance dt st) = entriesOf ts st"
  by (simp add: entriesOf_def advance_simps)

lemma tagsKnown_advance: "tagsKnown ts (advance dt st) = tagsKnown ts st"
  by (simp add: tagsKnown_def advance_simps)

lemma entriesOf_finishFetch: "entriesOf ts (finishFetch i r st) = entriesOf ts st"
  by (simp add: entriesOf_def finishFetch_simps)

lemma tagsKnown_finishFetch: "tagsKnown ts (finishFetch i r st) = tagsKnown ts st"
  by (simp add: tagsKnown_def finishFetch_simps)

lemma generateFetch_finish_matches: "matches q (generateFetch_finish r item) = matches q item"
  by (cases q) (simp_all add: urlEqual_def argsEqual_def generateFetch_finish_def split: sum.splits)

lemma live_finishFetch: "live q (finishFetch i r st) x = live q st x"
  by (simp add: live_def finishFetch_simps isExpired_def generateFetch_finish_matches
      generateFetch_finish_expired)

lemma live_advance:
  "live q (advance dt st) x =
     (live q st x \<and> \<not> (\<exists>due. (x, due) \<in> set (timers st) \<and> due \<le> clock st + dt))"
  by (auto simp: live_def advance_simps isExpired_def runTimers_matches runTimers_expired)

text \<open>
  The world in which the request has just been fetched on a miss, the transport has or
  has not answered, and \<open>dt\<close> milliseconds have passed.
\<close>

lemma new_item_live_later:
  assumes "timersAllocated st"
  shows "live (ByRequest inp op) (advance dt (created ts inp op l st)) (nextRef st)
           = (l = 0 \<or> dt < timerDelay l)"
proof -
  have "\<not> (\<exists>due. (nextRef st, due) \<in> set (timers st))"
    using assms by (auto simp: timersAllocated_def list_all_iff)
  then have "(\<exists>due. (nextRef st, due) \<in> set (timers (created ts inp op l st))
                \<and> due \<le> clock (created ts inp op l st) + dt) = (l \<noteq> 0 \<and> timerDelay l \<le> dt)"
    by (auto simp: created_simps)
  moreover have "live (ByRequest inp op) (created ts inp op l st) (nextRef st)"
    by (simp add: live_def created_simps argsEqual_def deepEqual_def isExpired_def)
  ultimately show ?thesis
    by (auto simp: live_advance)
qed

lemma old_items_not_live_later:
  assumes "tagsKnown ts st" and "findFetchItem ts inp op st = Inr None"
    and "x \<in> set (entriesOf ts (created ts inp op l st))" and "x \<noteq> nextRef st"
  shows "\<not> live (ByRequest inp op) (advance dt (created ts inp op l st)) x"
proof -
  from assms(3,4) have "x \<in> set (entriesOf ts st)" by (rule entriesOf_created)
  with assms(1,2) have "\<not> live (ByRequest inp op) st x"
    using miss_no_live [of ts st inp op ts x] by simp
  with assms(4) show ?thesis
    by (simp add: live_advance live_created_old)
qed

lemma lookup_after_time:
  assumes "tagsKnown ts st" and "findFetchItem ts inp op st = Inr None"
    and "timersAllocated st" and "ts \<noteq> []"
  shows "findFetchItem ts inp op (advance dt (created ts inp op l st))
           = Inr (if l = 0 \<or> dt < timerDelay l then Some (nextRef st) else None)"
proof -
  let ?q = "ByRequest inp op"
  let ?st1 = "created ts inp op l st"
  let ?st2 = "advance dt ?st1"
  have known: "tagsKnown ts ?st2"
    using assms(1) by (simp add: tagsKnown_advance tagsKnown_created)
  from assms(4) obtain tag where "tag \<in> set ts" by (cases ts) auto
  with created_registered [OF assms(1), of tag inp op l]
  have mem: "nextRef st \<in> set (entriesOf ts ?st2)"
    unfolding entriesOf_advance set_entriesOf by blast
  have old: "\<forall>x \<in> set (entriesOf ts ?st2). x \<noteq> nextRef st \<longrightarrow> \<not> live ?q ?st2 x"
    using old_items_not_live_later [OF assms(1,2)] by (simp add: entriesOf_advance)
  show ?thesis
  proof (cases "l = 0 \<or> dt < timerDelay l")
    case True
    with new_item_live_later [OF assms(3), of inp op dt ts l] have "live ?q ?st2 (nextRef st)"
      by simp
    with mem old have "find (live ?q ?st2) (entriesOf ts ?st2) = Some (nextRef st)"
      by (intro find_unique)
    with True show ?thesis
      unfolding findFetchItem_def findFetch_find [OF known] by simp
  next
    case False
    with new_item_live_later [OF assms(3), of inp op dt ts l] have "\<not> live ?q ?st2 (nextRef st)"
      by simp
    with old have "find (live ?q ?st2) (entriesOf ts ?st2) = None"
      by (auto simp: find_None_iff)
    with False show ?thesis
      unfolding findFetchItem_def findFetch_find [OF known] by simp
  qed
qed

lemma findFetchItem_finish_advance:
  assumes "tagsKnown ts st"
  shows "findFetchItem ts inp op (advance dt (finishFetch i res st))
           = findFetchItem ts inp op (advance dt st)"
proof -
  have "live (ByRequest inp op) (advance dt (finishFetch i res st))
          = live (ByRequest inp op) (advance dt st)"
    by (simp add: fun_eq_iff live_advance live_finishFetch finishFetch_simps)
  moreover have "entriesOf ts (advance dt (finishFetch i res st)) = entriesOf ts (advance dt st)"
    by (simp add: entriesOf_advance entriesOf_finishFetch)
  moreover have "tagsKnown ts (advance dt (finishFetch i res st))" "tagsKnown ts (advance dt st)"
    using assms by (simp_all add: tagsKnown_advance tagsKnown_finishFetch)
  ultimately show ?thesis
    by (simp add: findFetchItem_def findFetch_find)
qed

lemma answered_fields_later:
  assumes "decode res = Inr v"
  shows "error (heap (advance dt (finishFetch (nextRef st) res (created ts inp op l st))) (nextRef st))
           = JUndefined
     \<and> response (heap (advance dt (finishFetch (nextRef st) res (created ts inp op l st))) (nextRef st))
           = v"
  using assms
  by (simp add: advance_simps runTimers_fields finishFetch_simps created_simps
      generateFetch_finish_def)

lemma timersAllocated_created: "timersAllocated st \<Longrightarrow> timersAllocated (created ts inp op l st)"
  by (auto simp: timersAllocated_def list_all_iff created_simps)

lemma fetch_timersAllocated:
  assumes "fetch ts inp op l st = Inr (sig, st')" and "timersAllocated st"
  shows "timersAllocated st'"
proof (cases "findFetchItem ts inp op st")
  case (Inl e)
  with assms show ?thesis by (simp add: fetch_def)
next
  case (Inr m)
  show ?thesis
  proof (cases m)
    case None
    with Inr assms(1) have "pushAll ts (nextRef st) (snd (new_FetchCacheItem inp op l st)) = Inr st'"
      by (auto simp: fetch_def new_FetchCacheItem_def Let_def split: sum.splits)
    from pushAll_frame [OF this] assms(2) show ?thesis
      by (auto simp: timersAllocated_def list_all_iff new_FetchCacheItem_def Let_def)
  next
    case (Some i)
    with Inr assms show ?thesis by (simp add: fetch_found)
  qed
qed

lemma nonReactFetch_timersAllocated:
  assumes "nonReactFetch ts inp op l st = Inr (r, st')" and "timersAllocated st"
  shows "timersAllocated st'"
proof (cases "findFetchItem ts inp op st")
  case (Inl e)
  with assms show ?thesis by (simp add: nonReactFetch_def)
next
  case (Inr m)
  show ?thesis
  proof (cases m)
    case None
    with Inr assms(1) have "pushAll ts (nextRef st) (snd (new_FetchCacheItem inp op l st)) = Inr st'"
      by (auto simp: nonReactFetch_def new_FetchCacheItem_def Let_def split: sum.splits)
    from pushAll_frame [OF this] assms(2) show ?thesis
      by (auto simp: timersAllocated_def list_all_iff new_FetchCacheItem_def Let_def)
  next
    case (Some i)
    with Inr assms show ?thesis by (simp add: nonReactFetch_found)
  qed
qed

lemma initTags_timers: "timers (initTags ts st) = timers st"
  by (induction ts arbitrary: st) (auto split: option.splits if_splits)

lemma clearTags_timers: "timers (clearTags ts st) = timers st"
  by (induction ts arbitrary: st) auto

lemma step_timersAllocated:
  assumes "step a st = Inr st'" and "timersAllocated st"
  shows "timersAllocated st'"
proof (cases a)
  case (DoFetch ts inp op l)
  with assms(1) obtain sig where "fetch ts inp op l st = Inr (sig, st')"
    by (auto split: sum.splits)
  then show ?thesis using assms(2) by (rule fetch_timersAllocated)
next
  case (DoNonReactFetch ts inp op l)
  with assms(1) obtain r where "nonReactFetch ts inp op l st = Inr (r, st')"
    by (auto split: sum.splits)
  then show ?thesis using assms(2) by (rule nonReactFetch_timersAllocated)
next
  case (DoUriIsInCache ts u)
  with assms show ?thesis by (auto split: sum.splits)
next
  case (DoForceExpireURL ts u)
  with assms(1) have "forceExpire (ByURL u) ts st = Inr st'"
    by (simp add: forceExpireURL_def)
  from forceExpire_frame [OF this] assms(2) show ?thesis
    by (simp add: timersAllocated_def)
next
  case (DoForceExpireRequest ts inp op)
  with assms(1) have "forceExpire (ByRequest inp op) ts st = Inr st'"
    by (simp add: forceExpireRequest_def)
  from forceExpire_frame [OF this] assms(2) show ?thesis
    by (simp add: timersAllocated_def)
next
  case (DoWipeCache ts)
  with assms show ?thesis
    by (auto simp: timersAllocated_def wipeCache_def emitElementsExpired_def clearTags_timers
        clearTags_frame)
next
  case (DoNewInstance arg)
  with assms show ?thesis
    by (auto simp: timersAllocated_def new_FetchSuspense_def Let_def initTags_timers initTags_frame)
next
  case (TransportAnswers i r)
  with assms show ?thesis
    by (auto simp: timersAllocated_def finishFetch_simps)
next
  case (TimePasses dt)
  with assms show ?thesis
    by (auto simp: timersAllocated_def advance_def Let_def list_all_iff)
qed

lemma reachable_timersAllocated: "run acts st = Inr st' \<Longrightarrow> timersAllocated st \<Longrightarrow> timersAllocated st'"
proof (induction acts arbitrary: st)
  case Nil
  then show ?case by simp
next
  case (Cons a acts)
  from Cons.prems(1) obtain st1 where a: "step a st = Inr st1" and rest: "run acts st1 = Inr st'"
    by (auto split: sum.splits)
  from a Cons.prems(2) have "timersAllocated st1" by (rule step_timersAllocated)
  with rest show ?case by (rule Cons.IH)
qed

lemma initial_timersAllocated: "timersAllocated initialWorld"
  by (simp add: timersAllocated_def initialWorld_def)

lemma runTimers_flat_subset: "set (runTimers_flat tms now cs) \<subseteq> set cs"
proof (induction tms now cs rule: runTimers_flat.induct)
  case (1 now cs)
  then show ?case by simp
next
  case (2 i due rest now cs)
  have "set (remove1 i cs) \<subseteq> set cs" by (rule set_remove1_subset)
  with 2 show ?case by (auto split: if_splits)
qed

lemma runTimers_flat_distinct: "distinct cs \<Longrightarrow> distinct (runTimers_flat tms now cs)"
  by (induction tms now cs rule: runTimers_flat.induct) simp_all

lemma runTimers_flat_keeps:
  "\<forall>p \<in> set tms. fst p \<noteq> r \<Longrightarrow> r \<in> set cs \<Longrightarrow> r \<in> set (runTimers_flat tms now cs)"
proof (induction tms now cs rule: runTimers_flat.induct)
  case (1 now cs)
  then show ?case by simp
next
  case (2 i due rest now cs)
  from "2.prems" have "i \<noteq> r" and rest: "\<forall>p \<in> set rest. fst p \<noteq> r" by auto
  with "2.prems"(2) have "r \<in> set (if due \<le> now then remove1 i cs else cs)"
    by simp
  with "2.IH" rest show ?case by simp
qed

lemma runTimers_flat_append:
  "runTimers_flat (a @ b) now cs = runTimers_flat b now (runTimers_flat a now cs)"
  by (induction a now cs rule: runTimers_flat.induct) simp_all

lemma fetch_flat_miss:
  assumes "find (matches_flat inp op st) (fetchCaches st) = None"
  shows "fetch_flat inp op l st =
     (ThrewPromise (nextRef_flat st),
      st\<lparr>heap_flat := (heap_flat st)(nextRef_flat st :=
             \<lparr>error_flat = JUndefined, response_flat = JUndefined, input_flat = inp,
              opts_flat = op, settled_flat = False, lifespan_flat = l\<rparr>),
          nextRef_flat := Suc (nextRef_flat st),
          transportLog_flat := transportLog_flat st @ [(inp, op)],
          fetchCaches := fetchCaches st @ [nextRef_flat st]\<rparr>)"
proof -
  have "matches_flat inp op st =
      (\<lambda>i. deepEqual inp (input_flat (heap_flat st i)) \<and> deepEqual op (opts_flat (heap_flat st i)))"
    by (simp add: matches_flat_def fun_eq_iff)
  with assms show ?thesis by (simp add: fetch_flat_def Let_def)
qed

lemma fetch_flat_hit:
  assumes "find (matches_flat inp op st) (fetchCaches st) = Some i"
  shows "fetch_flat inp op l st =
     (if neqNull (error_flat (heap_flat st i)) then ThrewError (error_flat (heap_flat st i))
      else if neqNull (response_flat (heap_flat st i)) then Returned (response_flat (heap_flat st i))
      else ThrewPromise i, st)"
proof -
  have "matches_flat inp op st =
      (\<lambda>i. deepEqual inp (input_flat (heap_flat st i)) \<and> deepEqual op (opts_flat (heap_flat st i)))"
    by (simp add: matches_flat_def fun_eq_iff)
  with assms show ?thesis by (simp add: fetch_flat_def)
qed

lemma pending_flat_simps:
  assumes "find (matches_flat inp op st) (fetchCaches st) = None"
  shows "heap_flat (pending_flat inp op l dp st) =
           (heap_flat st)(nextRef_flat st :=
             \<lparr>error_flat = JUndefined, response_flat = JUndefined, input_flat = inp,
              opts_flat = op, settled_flat = False, lifespan_flat = l\<rparr>)"
    and "nextRef_flat (pending_flat inp op l dp st) = Suc (nextRef_flat st)"
    and "transportLog_flat (pending_flat inp op l dp st) = transportLog_flat st @ [(inp, op)]"
    and "clock_flat (pending_flat inp op l dp st) = clock_flat st + dp"
    and "fetchCaches (pending_flat inp op l dp st) =
           runTimers_flat (timers_flat st) (clock_flat st + dp) (fetchCaches st @ [nextRef_flat st])"
    and "timers_flat (pending_flat inp op l dp st) =
           filter (\<lambda>(i, due). \<not> due \<le> clock_flat st + dp) (timers_flat st)"
  by (simp_all add: pending_flat_def fetch_flat_miss [OF assms] advance_flat_def Let_def)

lemma answered_flat_simps:
  assumes "find (matches_flat inp op st) (fetchCaches st) = None"
  shows "heap_flat (answered_flat inp op l dp res da st) i =
           (if i = nextRef_flat st
            then (case decode res of
                    Inr data \<Rightarrow> \<lparr>error_flat = JUndefined, response_flat = data, input_flat = inp,
                                  opts_flat = op, settled_flat = True, lifespan_flat = l\<rparr>
                  | Inl e \<Rightarrow> \<lparr>error_flat = e, response_flat = JUndefined, input_flat = inp,
                               opts_flat = op, settled_flat = True, lifespan_flat = l\<rparr>)
            else heap_flat st i)"
    and "nextRef_flat (answered_flat inp op l dp res da st) = Suc (nextRef_flat st)"
    and "transportLog_flat (answered_flat inp op l dp res da st) = transportLog_flat st @ [(inp, op)]"
    and "fetchCaches (answered_flat inp op l dp res da st) =
           runTimers_flat
             (timers_flat (pending_flat inp op l dp st) @
                (if 0 < l then [(nextRef_flat st, clock_flat st + dp + timerDelay l)] else []))
             (clock_flat st + dp + da)
             (fetchCaches (pending_flat inp op l dp st))"
  by (simp_all add: answered_flat_def finishFetch_flat_def advance_flat_def Let_def
      pending_flat_simps [OF assms] split: sum.splits)


lemma allocated_flat_fresh:
  assumes "allocated_flat st"
  shows "nextRef_flat st \<notin> set (fetchCaches st)"
    and "\<forall>p \<in> set (timers_flat st). fst p \<noteq> nextRef_flat st"
    and "distinct (fetchCaches st @ [nextRef_flat st])"
  using assms by (auto simp: allocated_flat_def list_all_iff)

lemma matches_flat_new:
  assumes "find (matches_flat inp op st) (fetchCaches st) = None"
  shows "matches_flat inp op (pending_flat inp op l dp st) (nextRef_flat st)"
    and "matches_flat inp op (answered_flat inp op l dp res da st) (nextRef_flat st)"
  by (simp_all add: matches_flat_def pending_flat_simps [OF assms] answered_flat_simps [OF assms]
      deepEqual_def split: sum.splits)

lemma matches_flat_old:
  assumes "find (matches_flat inp op st) (fetchCaches st) = None"
    and "x \<in> set (fetchCaches st)" and "x \<noteq> nextRef_flat st"
  shows "\<not> matches_flat inp op (pending_flat inp op l dp st) x"
    and "\<not> matches_flat inp op (answered_flat inp op l dp res da st) x"
proof -
  from assms(1,2) have "\<not> matches_flat inp op st x"
    by (auto simp: find_None_iff)
  with assms(3) show "\<not> matches_flat inp op (pending_flat inp op l dp st) x"
    and "\<not> matches_flat inp op (answered_flat inp op l dp res da st) x"
    by (simp_all add: matches_flat_def pending_flat_simps [OF assms(1)]
        answered_flat_simps [OF assms(1)])
qed

lemma pending_flat_caches:
  assumes "allocated_flat st" and "find (matches_flat inp op st) (fetchCaches st) = None"
  shows "nextRef_flat st \<in> set (fetchCaches (pending_flat inp op l dp st))"
    and "distinct (fetchCaches (pending_flat inp op l dp st))"
    and "set (fetchCaches (pending_flat inp op l dp st)) \<subseteq> insert (nextRef_flat st) (set (fetchCaches st))"
    and "\<forall>p \<in> set (timers_flat (pending_flat inp op l dp st)). fst p \<noteq> nextRef_flat st"
proof -
  let ?r = "nextRef_flat st"
  show "?r \<in> set (fetchCaches (pending_flat inp op l dp st))"
    unfolding pending_flat_simps [OF assms(2)]
    by (rule runTimers_flat_keeps [OF allocated_flat_fresh(2) [OF assms(1)]]) simp
  show "distinct (fetchCaches (pending_flat inp op l dp st))"
    unfolding pending_flat_simps [OF assms(2)]
    by (rule runTimers_flat_distinct [OF allocated_flat_fresh(3) [OF assms(1)]])
  show "set (fetchCaches (pending_flat inp op l dp st)) \<subseteq> insert ?r (set (fetchCaches st))"
    unfolding pending_flat_simps [OF assms(2)]
    using runTimers_flat_subset [of "timers_flat st" "clock_flat st + dp" "fetchCaches st @ [?r]"]
    by auto
  show "\<forall>p \<in> set (timers_flat (pending_flat inp op l dp st)). fst p \<noteq> ?r"
    unfolding pending_flat_simps [OF assms(2)]
    using allocated_flat_fresh(2) [OF assms(1)] by auto
qed

lemma pending_flat_lookup:
  assumes "allocated_flat st" and "find (matches_flat inp op st) (fetchCaches st) = None"
  shows "fetch_flat inp op l (pending_flat inp op l dp st)
           = (ThrewPromise (nextRef_flat st), pending_flat inp op l dp st)"
proof -
  let ?r = "nextRef_flat st"
  let ?p = "pending_flat inp op l dp st"
  have others: "\<forall>x \<in> set (fetchCaches ?p). x \<noteq> ?r \<longrightarrow> \<not> matches_flat inp op ?p x"
    using pending_flat_caches(3) [OF assms, of l dp] matches_flat_old(1) [OF assms(2)]
    by blast
  have "find (matches_flat inp op ?p) (fetchCaches ?p) = Some ?r"
    using pending_flat_caches(1) [OF assms] matches_flat_new(1) [OF assms(2)] others
    by (rule find_unique)
  from fetch_flat_hit [OF this, of l] show ?thesis
    by (simp add: pending_flat_simps [OF assms(2)] neqNull_def)
qed

lemma answered_flat_caches:
  assumes "allocated_flat st" and "find (matches_flat inp op st) (fetchCaches st) = None"
  shows "(nextRef_flat st \<in> set (fetchCaches (answered_flat inp op l dp res da st)))
           = (\<not> (0 < l \<and> timerDelay l \<le> da))"
    and "set (fetchCaches (answered_flat inp op l dp res da st))
           \<subseteq> insert (nextRef_flat st) (set (fetchCaches st))"
proof -
  let ?r = "nextRef_flat st"
  let ?p = "pending_flat inp op l dp st"
  let ?now = "clock_flat st + dp + da"
  let ?mid = "runTimers_flat (timers_flat ?p) ?now (fetchCaches ?p)"
  have mem: "?r \<in> set ?mid"
    using pending_flat_caches(4,1) [OF assms] by (rule runTimers_flat_keeps)
  have dist: "distinct ?mid"
    using pending_flat_caches(2) [OF assms] by (rule runTimers_flat_distinct)
  have sub: "set ?mid \<subseteq> insert ?r (set (fetchCaches st))"
    using runTimers_flat_subset [of "timers_flat ?p" ?now "fetchCaches ?p"]
      pending_flat_caches(3) [OF assms, of l dp]
    by blast
  have eq: "fetchCaches (answered_flat inp op l dp res da st) =
      (if 0 < l \<and> timerDelay l \<le> da then remove1 ?r ?mid else ?mid)"
    by (simp add: answered_flat_simps [OF assms(2)] runTimers_flat_append)
  show "(?r \<in> set (fetchCaches (answered_flat inp op l dp res da st)))
           = (\<not> (0 < l \<and> timerDelay l \<le> da))"
    using mem dist by (simp add: eq)
  show "set (fetchCaches (answered_flat inp op l dp res da st)) \<subseteq> insert ?r (set (fetchCaches st))"
    using sub set_remove1_subset [of ?r ?mid] by (auto simp: eq)
qed

lemma answered_flat_lookup:
  assumes "allocated_flat st" and "find (matches_flat inp op st) (fetchCaches st) = None"
  shows "find (matches_flat inp op (answered_flat inp op l dp res da st))
              (fetchCaches (answered_flat inp op l dp res da st))
           = (if 0 < l \<and> timerDelay l \<le> da then None else Some (nextRef_flat st))"
proof -
  let ?r = "nextRef_flat st"
  let ?a = "answered_flat inp op l dp res da st"
  have others: "\<forall>x \<in> set (fetchCaches ?a). x \<noteq> ?r \<longrightarrow> \<not> matches_flat inp op ?a x"
    using answered_flat_caches(2) [OF assms, of l dp res da] matches_flat_old(2) [OF assms(2)]
    by blast
  show ?thesis
  proof (cases "0 < l \<and> timerDelay l \<le> da")
    case True
    with answered_flat_caches(1) [OF assms, of l dp res da] have "?r \<notin> set (fetchCaches ?a)"
      by simp
    with others have "find (matches_flat inp op ?a) (fetchCaches ?a) = None"
      by (auto simp: find_None_iff)
    with True show ?thesis by simp
  next
    case False
    with answered_flat_caches(1) [OF assms, of l dp res da] have "?r \<in> set (fetchCaches ?a)"
      by simp
    then have "find (matches_flat inp op ?a) (fetchCaches ?a) = Some ?r"
      using matches_flat_new(2) [OF assms(2)] others by (rule find_unique)
    with False show ?thesis by simp
  qed
qed


section \<open>Lifespan\<close>

text \<open>
  Claim C9, as amended. The constructor of \<open>FetchCacheItem\<close> calls the transport at
  once and registers its expiry timer exactly when the lifespan is not zero; the timer
  is due after the delay \<open>setTimeout\<close> makes of the lifespan: the lifespan itself when
  that is between 1 and \<open>2^31 - 1\<close> milliseconds, 1 millisecond otherwise. A synchronous
  lookup that finds nothing does this and throws the new item's promise. After \<open>dt\<close>
  milliseconds: if the lifespan is zero or \<open>dt\<close> is less than the delay, the lookup for
  the same request under the same tags finds that item and changes nothing, and if the
  transport has meanwhile answered with a value that is not \<open>null\<close> or \<open>undefined\<close>, the
  lookup returns it; if the lifespan is not zero and \<open>dt\<close> has reached the delay, the
  lookup finds nothing, creates a second item and calls the transport a second time.

  In the flat-list design a lookup that finds nothing calls the transport at once and
  registers no timer. However long the fetch is pending, the lookup finds the entry and
  throws its promise. When the transport answers, a timer is registered if the lifespan
  is positive, due after the same delay counted from that moment. After another \<open>da\<close>
  milliseconds: unless the lifespan is positive and \<open>da\<close> has reached the delay, the
  lookup returns a value that is not \<open>null\<close> or \<open>undefined\<close>; otherwise the entry has
  been removed and the lookup calls the transport a second time.
\<close>

theorem lifespan_timer_and_lookup:
  "timerDelay l = (if 1 \<le> l \<and> l \<le> 2147483647 then l else 1)
   \<and> transportLog (snd (new_FetchCacheItem inp op l st)) = transportLog st @ [(inp, op)]
   \<and> timers (snd (new_FetchCacheItem inp op l st))
       = timers st @ (if l \<noteq> 0 then [(nextRef st, clock st + timerDelay l)] else [])
   \<and> (tagsKnown ts st \<and> ts \<noteq> [] \<and> timersAllocated st \<and> findFetchItem ts inp op st = Inr None
        \<longrightarrow>
        fetch ts inp op l st = Inr (ThrewPromise (nextRef st), created ts inp op l st)
        \<and> transportLog (created ts inp op l st) = transportLog st @ [(inp, op)]
        \<and> (l = 0 \<or> dt < timerDelay l \<longrightarrow>
             findFetchItem ts inp op (advance dt (created ts inp op l st)) = Inr (Some (nextRef st))
             \<and> fetch ts inp op l (advance dt (created ts inp op l st))
                 = Inr (ThrewPromise (nextRef st), advance dt (created ts inp op l st)))
        \<and> ((l = 0 \<or> dt < timerDelay l) \<and> decode res = Inr v \<and> neqNull v \<longrightarrow>
             fetch ts inp op l (advance dt (finishFetch (nextRef st) res (created ts inp op l st)))
               = Inr (Returned v, advance dt (finishFetch (nextRef st) res (created ts inp op l st))))
        \<and> (l \<noteq> 0 \<and> timerDelay l \<le> dt \<longrightarrow>
             findFetchItem ts inp op (advance dt (finishFetch (nextRef st) res (created ts inp op l st)))
               = Inr None
             \<and> (\<exists>st3. fetch ts inp op l
                          (advance dt (finishFetch (nextRef st) res (created ts inp op l st)))
                        = Inr (ThrewPromise (Suc (nextRef st)), st3)
                   \<and> transportLog st3 = transportLog st @ [(inp, op), (inp, op)])))
   \<and> (allocated_flat fs \<and> find (matches_flat inp op fs) (fetchCaches fs) = None
        \<longrightarrow>
        fst (fetch_flat inp op l fs) = ThrewPromise (nextRef_flat fs)
        \<and> transportLog_flat (snd (fetch_flat inp op l fs)) = transportLog_flat fs @ [(inp, op)]
        \<and> timers_flat (snd (fetch_flat inp op l fs)) = timers_flat fs
        \<and> fetch_flat inp op l (pending_flat inp op l dp fs)
            = (ThrewPromise (nextRef_flat fs), pending_flat inp op l dp fs)
        \<and> timers_flat (finishFetch_flat (nextRef_flat fs) res (pending_flat inp op l dp fs))
            = timers_flat (pending_flat inp op l dp fs)
              @ (if 0 < l then [(nextRef_flat fs, clock_flat fs + dp + timerDelay l)] else [])
        \<and> (\<not> (0 < l \<and> timerDelay l \<le> da) \<and> decode res = Inr v \<and> neqNull v \<longrightarrow>
             fetch_flat inp op l (answered_flat inp op l dp res da fs)
               = (Returned v, answered_flat inp op l dp res da fs))
        \<and> (0 < l \<and> timerDelay l \<le> da \<longrightarrow>
             fst (fetch_flat inp op l (answered_flat inp op l dp res da fs))
               = ThrewPromise (Suc (nextRef_flat fs))
             \<and> transportLog_flat (snd (fetch_flat inp op l (answered_flat inp op l dp res da fs)))
                 = transportLog_flat fs @ [(inp, op), (inp, op)]))"
proof (intro conjI)
  show "timerDelay l = (if 1 \<le> l \<and> l \<le> 2147483647 then l else 1)"
    by (simp add: timerDelay_def)
  show "transportLog (snd (new_FetchCacheItem inp op l st)) = transportLog st @ [(inp, op)]"
    by (simp add: new_FetchCacheItem_def Let_def)
  show "timers (snd (new_FetchCacheItem inp op l st))
         = timers st @ (if l \<noteq> 0 then [(nextRef st, clock st + timerDelay l)] else [])"
    by (simp add: new_FetchCacheItem_def Let_def)
next
  let ?r = "nextRef st"
  let ?st1 = "created ts inp op l st"
  let ?st2 = "advance dt ?st1"
  let ?st2' = "advance dt (finishFetch ?r res ?st1)"
  show "tagsKnown ts st \<and> ts \<noteq> [] \<and> timersAllocated st \<and> findFetchItem ts inp op st = Inr None
        \<longrightarrow>
        fetch ts inp op l st = Inr (ThrewPromise ?r, ?st1)
        \<and> transportLog ?st1 = transportLog st @ [(inp, op)]
        \<and> (l = 0 \<or> dt < timerDelay l \<longrightarrow>
             findFetchItem ts inp op ?st2 = Inr (Some ?r)
             \<and> fetch ts inp op l ?st2 = Inr (ThrewPromise ?r, ?st2))
        \<and> ((l = 0 \<or> dt < timerDelay l) \<and> decode res = Inr v \<and> neqNull v \<longrightarrow>
             fetch ts inp op l ?st2' = Inr (Returned v, ?st2'))
        \<and> (l \<noteq> 0 \<and> timerDelay l \<le> dt \<longrightarrow>
             findFetchItem ts inp op ?st2' = Inr None
             \<and> (\<exists>st3. fetch ts inp op l ?st2' = Inr (ThrewPromise (Suc ?r), st3)
                   \<and> transportLog st3 = transportLog st @ [(inp, op), (inp, op)]))"
  proof
    assume a: "tagsKnown ts st \<and> ts \<noteq> [] \<and> timersAllocated st
      \<and> findFetchItem ts inp op st = Inr None"
    then have known: "tagsKnown ts st" and nonempty: "ts \<noteq> []" and alloc: "timersAllocated st"
      and miss: "findFetchItem ts inp op st = Inr None"
      by simp_all
    have known1: "tagsKnown ts ?st1"
      using known by (simp add: tagsKnown_created)
    have later: "findFetchItem ts inp op ?st2
        = Inr (if l = 0 \<or> dt < timerDelay l then Some ?r else None)"
      using known miss alloc nonempty by (rule lookup_after_time)
    have later': "findFetchItem ts inp op ?st2'
        = Inr (if l = 0 \<or> dt < timerDelay l then Some ?r else None)"
      using later by (simp add: findFetchItem_finish_advance [OF known1])
    have c3: "fetch ts inp op l st = Inr (ThrewPromise ?r, ?st1)"
      using known miss by (rule fetch_miss)
    have c4: "transportLog ?st1 = transportLog st @ [(inp, op)]"
      by (simp add: created_simps)
    have c5: "findFetchItem ts inp op ?st2 = Inr (Some ?r)
            \<and> fetch ts inp op l ?st2 = Inr (ThrewPromise ?r, ?st2)"
      if "l = 0 \<or> dt < timerDelay l"
    proof -
      from that later have found: "findFetchItem ts inp op ?st2 = Inr (Some ?r)" by simp
      have "error (heap ?st2 ?r) = JUndefined" "response (heap ?st2 ?r) = JUndefined"
        by (simp_all add: advance_simps runTimers_fields created_simps)
      with found show ?thesis by (simp add: fetch_found neqNull_def)
    qed
    have c6: "fetch ts inp op l ?st2' = Inr (Returned v, ?st2')"
      if "(l = 0 \<or> dt < timerDelay l) \<and> decode res = Inr v \<and> neqNull v"
    proof -
      from that later' have found: "findFetchItem ts inp op ?st2' = Inr (Some ?r)" by simp
      from that answered_fields_later [of res v dt st ts inp op l]
      have "error (heap ?st2' ?r) = JUndefined" "response (heap ?st2' ?r) = v" by simp_all
      with that found show ?thesis by (simp add: fetch_found neqNull_def)
    qed
    have c7: "findFetchItem ts inp op ?st2' = Inr None
            \<and> (\<exists>st3. fetch ts inp op l ?st2' = Inr (ThrewPromise (Suc ?r), st3)
                  \<and> transportLog st3 = transportLog st @ [(inp, op), (inp, op)])"
      if "l \<noteq> 0 \<and> timerDelay l \<le> dt"
    proof -
      from that later' have none: "findFetchItem ts inp op ?st2' = Inr None" by simp
      have known2: "tagsKnown ts ?st2'"
        using known1 by (simp add: tagsKnown_advance tagsKnown_finishFetch)
      have "fetch ts inp op l ?st2' = Inr (ThrewPromise (nextRef ?st2'), created ts inp op l ?st2')"
        using known2 none by (rule fetch_miss)
      moreover have "nextRef ?st2' = Suc ?r"
        by (simp add: advance_simps finishFetch_simps created_simps)
      moreover have "transportLog (created ts inp op l ?st2') = transportLog st @ [(inp, op), (inp, op)]"
        by (simp add: created_simps advance_simps finishFetch_simps)
      ultimately show ?thesis using none by simp
    qed
    from c3 c4 c5 c6 c7 show "fetch ts inp op l st = Inr (ThrewPromise ?r, ?st1)
        \<and> transportLog ?st1 = transportLog st @ [(inp, op)]
        \<and> (l = 0 \<or> dt < timerDelay l \<longrightarrow>
             findFetchItem ts inp op ?st2 = Inr (Some ?r)
             \<and> fetch ts inp op l ?st2 = Inr (ThrewPromise ?r, ?st2))
        \<and> ((l = 0 \<or> dt < timerDelay l) \<and> decode res = Inr v \<and> neqNull v \<longrightarrow>
             fetch ts inp op l ?st2' = Inr (Returned v, ?st2'))
        \<and> (l \<noteq> 0 \<and> timerDelay l \<le> dt \<longrightarrow>
             findFetchItem ts inp op ?st2' = Inr None
             \<and> (\<exists>st3. fetch ts inp op l ?st2' = Inr (ThrewPromise (Suc ?r), st3)
                   \<and> transportLog st3 = transportLog st @ [(inp, op), (inp, op)]))"
      by blast
  qed
next
  let ?r = "nextRef_flat fs"
  let ?p = "pending_flat inp op l dp fs"
  let ?a = "answered_flat inp op l dp res da fs"
  show "allocated_flat fs \<and> find (matches_flat inp op fs) (fetchCaches fs) = None
        \<longrightarrow>
        fst (fetch_flat inp op l fs) = ThrewPromise ?r
        \<and> transportLog_flat (snd (fetch_flat inp op l fs)) = transportLog_flat fs @ [(inp, op)]
        \<and> timers_flat (snd (fetch_flat inp op l fs)) = timers_flat fs
        \<and> fetch_flat inp op l ?p = (ThrewPromise ?r, ?p)
        \<and> timers_flat (finishFetch_flat ?r res ?p)
            = timers_flat ?p @ (if 0 < l then [(?r, clock_flat fs + dp + timerDelay l)] else [])
        \<and> (\<not> (0 < l \<and> timerDelay l \<le> da) \<and> decode res = Inr v \<and> neqNull v \<longrightarrow>
             fetch_flat inp op l ?a = (Returned v, ?a))
        \<and> (0 < l \<and> timerDelay l \<le> da \<longrightarrow>
             fst (fetch_flat inp op l ?a) = ThrewPromise (Suc ?r)
             \<and> transportLog_flat (snd (fetch_flat inp op l ?a))
                 = transportLog_flat fs @ [(inp, op), (inp, op)])"
  proof
    assume "allocated_flat fs \<and> find (matches_flat inp op fs) (fetchCaches fs) = None"
    then have alloc: "allocated_flat fs"
      and miss: "find (matches_flat inp op fs) (fetchCaches fs) = None"
      by simp_all
    have f1: "fst (fetch_flat inp op l fs) = ThrewPromise ?r"
      "transportLog_flat (snd (fetch_flat inp op l fs)) = transportLog_flat fs @ [(inp, op)]"
      "timers_flat (snd (fetch_flat inp op l fs)) = timers_flat fs"
      by (simp_all add: fetch_flat_miss [OF miss])
    have f2: "fetch_flat inp op l ?p = (ThrewPromise ?r, ?p)"
      using alloc miss by (rule pending_flat_lookup)
    have f3: "timers_flat (finishFetch_flat ?r res ?p)
            = timers_flat ?p @ (if 0 < l then [(?r, clock_flat fs + dp + timerDelay l)] else [])"
      by (simp add: finishFetch_flat_def Let_def pending_flat_simps(1,4) [OF miss])
    have look: "find (matches_flat inp op ?a) (fetchCaches ?a)
           = (if 0 < l \<and> timerDelay l \<le> da then None else Some ?r)"
      using alloc miss by (rule answered_flat_lookup)
    have f4: "fetch_flat inp op l ?a = (Returned v, ?a)"
      if "\<not> (0 < l \<and> timerDelay l \<le> da) \<and> decode res = Inr v \<and> neqNull v"
    proof -
      from that look have "find (matches_flat inp op ?a) (fetchCaches ?a) = Some ?r" by simp
      from fetch_flat_hit [OF this, of l] that show ?thesis
        by (simp add: answered_flat_simps(1) [OF miss] neqNull_def)
    qed
    have f5: "fst (fetch_flat inp op l ?a) = ThrewPromise (Suc ?r)
             \<and> transportLog_flat (snd (fetch_flat inp op l ?a))
                 = transportLog_flat fs @ [(inp, op), (inp, op)]"
      if "0 < l \<and> timerDelay l \<le> da"
    proof -
      from that look have "find (matches_flat inp op ?a) (fetchCaches ?a) = None" by simp
      from fetch_flat_miss [OF this, of l] show ?thesis
        by (simp add: answered_flat_simps(2,3) [OF miss])
    qed
    from f1 f2 f3 f4 f5 show "fst (fetch_flat inp op l fs) = ThrewPromise ?r
        \<and> transportLog_flat (snd (fetch_flat inp op l fs)) = transportLog_flat fs @ [(inp, op)]
        \<and> timers_flat (snd (fetch_flat inp op l fs)) = timers_flat fs
        \<and> fetch_flat inp op l ?p = (ThrewPromise ?r, ?p)
        \<and> timers_flat (finishFetch_flat ?r res ?p)
            = timers_flat ?p @ (if 0 < l then [(?r, clock_flat fs + dp + timerDelay l)] else [])
        \<and> (\<not> (0 < l \<and> timerDelay l \<le> da) \<and> decode res = Inr v \<and> neqNull v \<longrightarrow>
             fetch_flat inp op l ?a = (Returned v, ?a))
        \<and> (0 < l \<and> timerDelay l \<le> da \<longrightarrow>
             fst (fetch_flat inp op l ?a) = ThrewPromise (Suc ?r)
             \<and> transportLog_flat (snd (fetch_flat inp op l ?a))
                 = transportLog_flat fs @ [(inp, op), (inp, op)])"
      by blast
  qed
qed


text \<open>
  The request \<open>/a\<close> is fetched with a lifespan of 1000 ms and the transport answers
  with a JSON object. Under the tags \<open>a\<close> and \<open>b\<close> the lookup returns the object after
  999 ms and fetches again after 1000 ms. In the flat list, where the answer comes after
  400 ms, the lookup returns the object 999 ms after the answer and fetches again
  1000 ms after it.
\<close>

theorem lifespan_timer_and_lookup_witness:
  "tagsKnown [''a'', ''b''] worldTags \<and> [''a'', ''b''] \<noteq> [] \<and> timersAllocated worldTags
   \<and> findFetchItem [''a'', ''b''] reqA None worldTags = Inr None
   \<and> decode jsonOk = Inr (JObj [(''id'', JNum 7)]) \<and> neqNull (JObj [(''id'', JNum 7)])
   \<and> timerDelay 1000 = 1000
   \<and> timers (snd (new_FetchCacheItem reqA None 1000 worldTags)) = [(0, 1000)]
   \<and> timers (snd (new_FetchCacheItem reqA None 0 worldTags)) = []
   \<and> fetch [''a'', ''b''] reqA None 1000
        (advance 999 (finishFetch 0 jsonOk (created [''a'', ''b''] reqA None 1000 worldTags)))
       = Inr (Returned (JObj [(''id'', JNum 7)]),
              advance 999 (finishFetch 0 jsonOk (created [''a'', ''b''] reqA None 1000 worldTags)))
   \<and> findFetchItem [''a'', ''b''] reqA None
        (advance 1000 (finishFetch 0 jsonOk (created [''a'', ''b''] reqA None 1000 worldTags)))
       = Inr None
   \<and> (\<exists>st3. fetch [''a'', ''b''] reqA None 1000
                (advance 1000 (finishFetch 0 jsonOk (created [''a'', ''b''] reqA None 1000 worldTags)))
              = Inr (ThrewPromise 1, st3)
         \<and> transportLog st3 = [(reqA, None), (reqA, None)])
   \<and> allocated_flat initialWorld_flat
   \<and> find (matches_flat reqA None initialWorld_flat) (fetchCaches initialWorld_flat) = None
   \<and> timers_flat (snd (fetch_flat reqA None 1000 initialWorld_flat)) = []
   \<and> timers_flat (finishFetch_flat 0 jsonOk (pending_flat reqA None 1000 400 initialWorld_flat))
       = [(0, 1400)]
   \<and> fetch_flat reqA None 1000 (answered_flat reqA None 1000 400 jsonOk 999 initialWorld_flat)
       = (Returned (JObj [(''id'', JNum 7)]),
          answered_flat reqA None 1000 400 jsonOk 999 initialWorld_flat)
   \<and> fst (fetch_flat reqA None 1000 (answered_flat reqA None 1000 400 jsonOk 1000 initialWorld_flat))
       = ThrewPromise 1
   \<and> transportLog_flat
        (snd (fetch_flat reqA None 1000 (answered_flat reqA None 1000 400 jsonOk 1000 initialWorld_flat)))
       = [(reqA, None), (reqA, None)]"
proof -
  have k: "tagsKnown [''a'', ''b''] worldTags" by code_simp
  have n: "[''a'', ''b''] \<noteq> []" by simp
  have t: "timersAllocated worldTags" by code_simp
  have m: "findFetchItem [''a'', ''b''] reqA None worldTags = Inr None" by code_simp
  have d: "decode jsonOk = Inr (JObj [(''id'', JNum 7)])" by code_simp
  have ne: "neqNull (JObj [(''id'', JNum 7)])" by code_simp
  have z: "nextRef worldTags = 0" "clock worldTags = 0" "timers worldTags = []"
    "transportLog worldTags = []"
    by code_simp+
  have fa: "allocated_flat initialWorld_flat" by code_simp
  have fm: "find (matches_flat reqA None initialWorld_flat) (fetchCaches initialWorld_flat) = None"
    by code_simp
  have fz: "nextRef_flat initialWorld_flat = 0" "clock_flat initialWorld_flat = 0"
    "timers_flat initialWorld_flat = []" "transportLog_flat initialWorld_flat = []"
    by code_simp+
  have pt: "timers_flat (pending_flat reqA None 1000 400 initialWorld_flat) = []" by code_simp
  have td: "timerDelay 1000 = 1000" by code_simp
  from k n t m d ne z td
    lifespan_timer_and_lookup [where st = worldTags and ts = "[''a'', ''b'']" and inp = reqA
      and op = None and l = 1000 and dt = 999 and res = jsonOk and v = "JObj [(''id'', JNum 7)]"]
  have c1: "timers (snd (new_FetchCacheItem reqA None 1000 worldTags)) = [(0, 1000)]
     \<and> fetch [''a'', ''b''] reqA None 1000
        (advance 999 (finishFetch 0 jsonOk (created [''a'', ''b''] reqA None 1000 worldTags)))
       = Inr (Returned (JObj [(''id'', JNum 7)]),
              advance 999 (finishFetch 0 jsonOk (created [''a'', ''b''] reqA None 1000 worldTags)))"
    by simp
  from z lifespan_timer_and_lookup [where st = worldTags and inp = reqA and op = None and l = 0]
  have c2: "timers (snd (new_FetchCacheItem reqA None 0 worldTags)) = []"
    by simp
  from k n t m z td
    lifespan_timer_and_lookup [where st = worldTags and ts = "[''a'', ''b'']" and inp = reqA
      and op = None and l = 1000 and dt = 1000 and res = jsonOk]
  have c3: "findFetchItem [''a'', ''b''] reqA None
        (advance 1000 (finishFetch 0 jsonOk (created [''a'', ''b''] reqA None 1000 worldTags)))
       = Inr None
   \<and> (\<exists>st3. fetch [''a'', ''b''] reqA None 1000
                (advance 1000 (finishFetch 0 jsonOk (created [''a'', ''b''] reqA None 1000 worldTags)))
              = Inr (ThrewPromise 1, st3)
         \<and> transportLog st3 = [(reqA, None), (reqA, None)])"
    by simp
  from fa fm fz pt d ne td
    lifespan_timer_and_lookup [where fs = initialWorld_flat and inp = reqA and op = None
      and l = 1000 and dp = 400 and da = 999 and res = jsonOk and v = "JObj [(''id'', JNum 7)]"]
  have c4: "timers_flat (snd (fetch_flat reqA None 1000 initialWorld_flat)) = []
   \<and> timers_flat (finishFetch_flat 0 jsonOk (pending_flat reqA None 1000 400 initialWorld_flat))
       = [(0, 1400)]
   \<and> fetch_flat reqA None 1000 (answered_flat reqA None 1000 400 jsonOk 999 initialWorld_flat)
       = (Returned (JObj [(''id'', JNum 7)]),
          answered_flat reqA None 1000 400 jsonOk 999 initialWorld_flat)"
    by simp
  from fa fm fz td
    lifespan_timer_and_lookup [where fs = initialWorld_flat and inp = reqA and op = None
      and l = 1000 and dp = 400 and da = 1000 and res = jsonOk]
  have c5: "fst (fetch_flat reqA None 1000 (answered_flat reqA None 1000 400 jsonOk 1000 initialWorld_flat))
       = ThrewPromise 1
   \<and> transportLog_flat
        (snd (fetch_flat reqA None 1000 (answered_flat reqA None 1000 400 jsonOk 1000 initialWorld_flat)))
       = [(reqA, None), (reqA, None)]"
    by simp
  from k n t m d ne td fa fm c1 c2 c3 c4 c5 show ?thesis by blast
qed

text \<open>
  Claim C9 as stated fails in three places. In the tag-indexed design the constructor
  tests \<open>if (this.lifespan)\<close>: with the lifespan \<open>-1\<close>, which is not positive, a timer is
  registered, and one millisecond later the item is expired and the next lookup calls the
  transport again. With the positive lifespan \<open>2^31\<close> the delay of \<open>setTimeout\<close>
  overflows: the lookup 50 ms after creation, long before the lifespan is over, finds
  nothing. In the flat-list design no timer is registered when the entry is created with
  the lifespan 1000; it is registered when the fetch settles, here at 400 ms and so due
  at 1400 ms, and the lookup at 1000 ms still returns the cached value without a new
  transport call.
\<close>

theorem lifespan_timer_counterexample:
  "\<not> (0 < (- 1 :: int))
   \<and> timers worldTags = []
   \<and> timers worldNegative = [(0, 1)]
   \<and> findFetchItem [''a''] reqA None (advance 1 worldNegative) = Inr None
   \<and> transportLog (snd (projr (fetch [''a''] reqA None (- 1) (advance 1 worldNegative))))
        = [(reqA, None), (reqA, None)]
   \<and> (0 :: int) < 2147483648 \<and> (50 :: int) < 2147483648
   \<and> findFetchItem [''a''] reqA None (created [''a''] reqA None 2147483648 worldTags)
        = Inr (Some 0)
   \<and> findFetchItem [''a''] reqA None (advance 50 (created [''a''] reqA None 2147483648 worldTags))
        = Inr None
   \<and> timers_flat (snd (fetch_flat reqA None 1000 initialWorld_flat)) = []
   \<and> timers_flat (finishFetch_flat 0 jsonOk (advance_flat 400
         (snd (fetch_flat reqA None 1000 initialWorld_flat)))) = [(0, 1400)]
   \<and> clock_flat worldLate_flat = 1000
   \<and> fst (fetch_flat reqA None 1000 worldLate_flat) = Returned (JObj [(''id'', JNum 7)])
   \<and> transportLog_flat (snd (fetch_flat reqA None 1000 worldLate_flat)) = [(reqA, None)]"
  by code_simp

end
